theory Spec2Isabelle
  imports Main "HOL-Library.Word" "HOL-Library.AList" "HOL-Library.Char_ord"
    "HOL-Library.List_Lexorder" "HOL-Library.Multiset"
begin

unbundle bit_operations_syntax

section \<open>Python values used by analysis\_graph\_builder.py\<close>

text \<open>
  Python \<open>bytes\<close> and \<open>str\<close> are both byte strings here: \<open>tf.compat.as_bytes\<close> and
  \<open>tf.compat.as_str_any\<close> are the identity on them. Every \<open>raise\<close> and every failing
  \<open>assert\<close>, attribute access, subscript or tuple unpacking of the source is a value of
  \<open>error\<close>, returned as \<open>Inl\<close>.
\<close>

type_synonym bytes = string

datatype error =
    ValueError string
  | AssertionError
  | TypeError
  | KeyError
  | AttributeError

text \<open>\<open>(x,) = xs\<close>: unpacking a sequence that must hold exactly one element.\<close>

definition unpack1 :: "'a list \<Rightarrow> error + 'a" where
  "unpack1 xs = (case xs of [x] \<Rightarrow> Inr x | _ \<Rightarrow> Inl (ValueError ''unpack''))"

text \<open>\<open>str(n)\<close> for a non-negative integer.\<close>

fun str_nat :: "nat \<Rightarrow> string" where
  "str_nat n =
     (if n < 10 then [''0123456789'' ! n]
      else str_nat (n div 10) @ [''0123456789'' ! (n mod 10)])"

declare str_nat.simps [simp del]

subsection \<open>hashlib.sha1\<close>

text \<open>
  SHA-1, transcribed from FIPS 180-4, on byte strings. \<open>h.update(a); h.update(b);
  h.digest()\<close> is \<open>sha1 (a @ b)\<close>. The properties below use only that a digest has 20
  bytes.
\<close>

definition be_bytes :: "nat \<Rightarrow> nat \<Rightarrow> 8 word list" where
  "be_bytes k n = map (\<lambda>i. of_nat (n div 256 ^ i)) (rev [0..<k])"

definition sha1_pad :: "8 word list \<Rightarrow> 8 word list" where
  "sha1_pad m =
     m @ [0x80] @ replicate ((119 - length m mod 64) mod 64) 0 @ be_bytes 8 (8 * length m)"

fun be_words :: "8 word list \<Rightarrow> 32 word list" where
  "be_words (a # b # c # d # r) =
     (push_bit 24 (ucast a) OR push_bit 16 (ucast b) OR push_bit 8 (ucast c) OR ucast d)
       # be_words r"
| "be_words _ = []"

definition rotl :: "nat \<Rightarrow> 32 word \<Rightarrow> 32 word" where
  "rotl n x = push_bit n x OR drop_bit (32 - n) x"

fun sha1_schedule :: "nat \<Rightarrow> 32 word list \<Rightarrow> 32 word list" where
  "sha1_schedule 0 w = w"
| "sha1_schedule (Suc n) w =
     sha1_schedule n (w @ [rotl 1 (w ! (length w - 3) XOR w ! (length w - 8) XOR
        w ! (length w - 14) XOR w ! (length w - 16))])"

definition sha1_f :: "nat \<Rightarrow> 32 word \<Rightarrow> 32 word \<Rightarrow> 32 word \<Rightarrow> 32 word" where
  "sha1_f t b c d =
     (if t < 20 then (b AND c) OR (NOT b AND d)
      else if t < 40 then b XOR c XOR d
      else if t < 60 then (b AND c) OR (b AND d) OR (c AND d)
      else b XOR c XOR d)"

definition sha1_k :: "nat \<Rightarrow> 32 word" where
  "sha1_k t = (if t < 20 then 0x5A827999 else if t < 40 then 0x6ED9EBA1
               else if t < 60 then 0x8F1BBCDC else 0xCA62C1D6)"

type_synonym sha1_state = "32 word \<times> 32 word \<times> 32 word \<times> 32 word \<times> 32 word"

definition sha1_round :: "sha1_state \<Rightarrow> nat \<times> 32 word \<Rightarrow> sha1_state" where
  "sha1_round s tw = (case s of (a, b, c, d, e) \<Rightarrow> case tw of (t, w) \<Rightarrow>
     (rotl 5 a + sha1_f t b c d + e + sha1_k t + w, a, rotl 30 b, c, d))"

definition sha1_block :: "sha1_state \<Rightarrow> 8 word list \<Rightarrow> sha1_state" where
  "sha1_block h blk =
     (case h of (h0, h1, h2, h3, h4) \<Rightarrow>
      case foldl sha1_round h (zip [0..<80] (sha1_schedule 64 (be_words blk))) of
        (a, b, c, d, e) \<Rightarrow> (h0 + a, h1 + b, h2 + c, h3 + d, h4 + e))"

fun chunks :: "nat \<Rightarrow> nat \<Rightarrow> 'a list \<Rightarrow> 'a list list" where
  "chunks 0 n xs = []"
| "chunks (Suc k) n xs = take n xs # chunks k n (drop n xs)"

definition sha1 :: "bytes \<Rightarrow> bytes" where
  "sha1 m =
     (let p = sha1_pad (map of_char m) in
      case foldl sha1_block (0x67452301, 0xEFCDAB89, 0x98BADCFE, 0x10325476, 0xC3D2E1F0)
             (chunks (length p div 64) 64 p) of
        (h0, h1, h2, h3, h4) \<Rightarrow>
          map (\<lambda>b. char_of (unat b))
            (concat (map (\<lambda>h. be_bytes 4 (unat h)) [h0, h1, h2, h3, h4])))"

section \<open>Path hasher\<close>

text \<open>
  A \<open>tf.Operation\<close> attribute value (the \<open>AttrValue\<close> message), by what the source reads of
  it: whether the \<open>func\<close> field is set, the repeated \<open>list.func\<close> field, and the bytes
  \<open>SerializeToString()\<close> returns.
\<close>

record attr_value =
  HasField_func :: bool
  list_func :: "string list"
  SerializeToString :: bytes

text \<open>\<open>attr_value.HasField('func') or attr_value.list.func\<close>.\<close>

definition contains_func :: "attr_value \<Rightarrow> bool" where
  "contains_func attr_value = (HasField_func attr_value \<or> list_func attr_value \<noteq> [])"

text \<open>The loop of \<open>_serialize_op_attr\<close> over the sorted items.\<close>

fun serialize_items :: "(string \<times> attr_value) list \<Rightarrow> error + bytes list" where
  "serialize_items [] = Inr []"
| "serialize_items ((key, attr_value) # rest) =
     (if contains_func attr_value
      then Inl (ValueError ''Unable to serialize op attributes that contain a `func` field'')
      else case serialize_items rest of
             Inl e \<Rightarrow> Inl e
           | Inr result \<Rightarrow> Inr (key # SerializeToString attr_value # result))"

text \<open>
  \<open>_serialize_op_attr\<close>; \<open>op_attr\<close> is the attribute map as its list of items, in the
  map's own iteration order.
\<close>

definition serialize_op_attr :: "(string \<times> attr_value) list \<Rightarrow> error + bytes list" where
  "serialize_op_attr op_attr = serialize_items (sort_key fst op_attr)"

text \<open>
  The current TF graph node \<open>x\<close>: a \<open>tf.Operation\<close> (its \<open>node_def.attr\<close>), a
  \<open>tf.Tensor\<close> (its \<open>value_index\<close>), a \<open>str\<close> or \<open>bytes\<close>, or any other object.
\<close>

datatype graph_node =
    Operation "(string \<times> attr_value) list"
  | Tensor nat
  | Str bytes
  | OtherObject

definition node_values :: "graph_node \<Rightarrow> error + bytes list" where
  "node_values x =
     (case x of
        Operation attr \<Rightarrow> serialize_op_attr attr
      | Tensor value_index \<Rightarrow> Inr [str_nat value_index]
      | Str s \<Rightarrow> Inr [s]
      | OtherObject \<Rightarrow> Inl AssertionError)"

text \<open>
  \<open>_describe_path_as_analyzer_cache_hash(x, parents=None)\<close>. \<open>parents\<close> is \<open>None\<close> or a
  list whose elements are \<open>bytes\<close> or \<open>None\<close>; \<open>or_empty parents\<close> is \<open>parents or []\<close>.
\<close>

definition or_empty :: "'a list option \<Rightarrow> 'a list" where
  "or_empty parents = (case parents of None \<Rightarrow> [] | Some ps \<Rightarrow> ps)"

definition describe_path_as_analyzer_cache_hash ::
  "graph_node option \<Rightarrow> bytes option list option \<Rightarrow> error + bytes option" where
  "describe_path_as_analyzer_cache_hash x parents =
     (case x of
        None \<Rightarrow> (case parents of None \<Rightarrow> Inr None | Some _ \<Rightarrow> Inl AssertionError)
      | Some node \<Rightarrow>
          (case those (or_empty parents) of
             None \<Rightarrow> Inr None
           | Some ps \<Rightarrow>
               (case node_values node of
                  Inl e \<Rightarrow> Inl e
                | Inr values \<Rightarrow> Inr (Some (sha1 (concat values @ concat ps))))))"

section \<open>Operation graph\<close>

text \<open>
  The operation descriptors of \<open>nodes\<close>, \<open>beam_nodes\<close> and \<open>analyzer_nodes\<close>: the class
  with its own fields, and what every \<open>OperationDef\<close> exposes: \<open>label\<close>, \<open>num_outputs\<close>,
  \<open>is_partitionable\<close> and \<open>cache_coder\<close>. \<open>attr_paths\<close> holds the byte strings that
  \<open>_make_next_hashed_path\<close> derives from a descriptor that is not an \<open>ExtractFromDict\<close>
  with \<open>dir\<close>, \<open>getattr\<close>, \<open>get_field_str\<close> and \<open>str\<close>, in the order it appends them.
  A coder object is truthy.
\<close>

datatype coder = Coder string

datatype pcollection = PCollection string

datatype op_fields =
    ApplySavedModel "string option" int
  | ExtractFromDict "string list"
  | Flatten
  | DecodeCache string bytes string coder
  | EncodeCache coder
  | CreateSavedModel "string list" "string list"
  | CreateTensorBinding string bool
  | TensorSource "string list"
  | OtherOperation string

record operation_def =
  kind :: op_fields
  label :: string
  num_outputs :: nat
  is_partitionable :: bool
  cache_coder :: "coder option"
  attr_paths :: "bytes list"

text \<open>\<open>operation_def.__class__.__name__\<close>.\<close>

definition class_name :: "op_fields \<Rightarrow> string" where
  "class_name f =
     (case f of
        ApplySavedModel _ _ \<Rightarrow> ''ApplySavedModel''
      | ExtractFromDict _ \<Rightarrow> ''ExtractFromDict''
      | Flatten \<Rightarrow> ''Flatten''
      | DecodeCache _ _ _ _ \<Rightarrow> ''DecodeCache''
      | EncodeCache _ \<Rightarrow> ''EncodeCache''
      | CreateSavedModel _ _ \<Rightarrow> ''CreateSavedModel''
      | CreateTensorBinding _ _ \<Rightarrow> ''CreateTensorBinding''
      | TensorSource _ \<Rightarrow> ''TensorSource''
      | OtherOperation name \<Rightarrow> name)"

datatype operation_node = OperationNode operation_def "value_node list"
and value_node = ValueNode operation_node nat

text \<open>\<open>OperationNode(operation_def, inputs).outputs\<close>: one value node per declared output.\<close>

definition outputs :: "operation_def \<Rightarrow> value_node list \<Rightarrow> value_node list" where
  "outputs d ins = map (ValueNode (OperationNode d ins)) [0..<num_outputs d]"

text \<open>\<open>'{}[{}]'.format(a, b)\<close>.\<close>

definition bracket :: "string \<Rightarrow> string \<Rightarrow> string" where
  "bracket a b = a @ ''['' @ b @ '']''"

text \<open>
  Modelled from the spec: the class \<open>analyzer_nodes.DecodeCache\<close>, which the source only
  constructs, as \<open>DecodeCache(dataset_key, cache_entry_key, operation_def.label,
  coder=operation_def.cache_coder)\<close>: the decode-cache node. It holds these four
  arguments, has one output (the source unpacks a single one), and labels itself
  \<open>DecodeCache[dataset key][third argument]\<close>.
\<close>

definition decode_cache :: "string \<Rightarrow> bytes \<Rightarrow> string \<Rightarrow> coder \<Rightarrow> operation_def" where
  "decode_cache dataset_key cache_key cache_entry_identifier c =
     \<lparr>kind = DecodeCache dataset_key cache_key cache_entry_identifier c,
      label = bracket (bracket ''DecodeCache'' dataset_key) cache_entry_identifier,
      num_outputs = 1, is_partitionable = True, cache_coder = None, attr_paths = []\<rparr>"

text \<open>
  Modelled from the spec: the class \<open>analyzer_nodes.EncodeCache\<close>, which the source only
  constructs, with \<open>coder\<close> and \<open>label\<close>: the encode-cache node, with one output
  (\<open>nodes.apply_operation\<close> returns a single one).
\<close>

definition encode_cache :: "coder \<Rightarrow> string \<Rightarrow> operation_def" where
  "encode_cache c lbl =
     \<lparr>kind = EncodeCache c, label = lbl, num_outputs = 1,
      is_partitionable = True, cache_coder = None, attr_paths = []\<rparr>"

text \<open>
  Modelled from the spec: the class \<open>beam_nodes.Flatten\<close>, which the source only
  constructs, with \<open>label\<close>: the explicit flatten operation, with one output.
\<close>

definition flatten :: "string \<Rightarrow> operation_def" where
  "flatten lbl =
     \<lparr>kind = Flatten, label = lbl, num_outputs = 1,
      is_partitionable = True, cache_coder = None, attr_paths = []\<rparr>"

section \<open>Cache optimizer\<close>

text \<open>
  \<open>_OptimizationView\<close>. \<open>fine_grained_view\<close> is \<open>None\<close> or an \<open>OrderedDict\<close>, kept as
  the list of its items in insertion order; \<open>prefer_fine_grained_view\<close> is the truth value
  of what the source stores.
\<close>

type_synonym fine_grained = "(string \<times> value_node) list"

record optimization_view =
  prefer_fine_grained_view :: bool
  flattened_view :: value_node
  fine_grained_view :: "fine_grained option"
  hashed_path :: "bytes option"

text \<open>The truth value of \<open>fine_grained_view\<close>: neither \<open>None\<close> nor an empty dictionary.\<close>

definition truthy :: "fine_grained option \<Rightarrow> bool" where
  "truthy fg = (case fg of None \<Rightarrow> False | Some items \<Rightarrow> items \<noteq> [])"

text \<open>\<open>_OptimizationView.__init__\<close>.\<close>

definition new_OptimizationView ::
  "bool \<Rightarrow> value_node \<Rightarrow> fine_grained option \<Rightarrow> bytes option \<Rightarrow> error + optimization_view" where
  "new_OptimizationView prefer flat fine path =
     (if prefer \<and> \<not> truthy fine
      then Inl (ValueError ''Cannot prefer fine_grained_view when one is not provided'')
      else Inr \<lparr>prefer_fine_grained_view = prefer, flattened_view = flat,
                fine_grained_view = fine, hashed_path = path\<rparr>)"

text \<open>A tuple of views built by a generator expression: the first failing one raises.\<close>

fun sequence :: "(error + 'a) list \<Rightarrow> error + 'a list" where
  "sequence [] = Inr []"
| "sequence (x # xs) =
     (case x of
        Inl e \<Rightarrow> Inl e
      | Inr v \<Rightarrow> (case sequence xs of Inl e \<Rightarrow> Inl e | Inr vs \<Rightarrow> Inr (v # vs)))"

text \<open>
  \<open>_OptimizeVisitor\<close>: \<open>dataset_keys\<close> is \<open>self._dataset_keys\<close> (already sorted by
  \<open>__init__\<close>), \<open>cache_dict\<close> is \<open>None\<close> or a dictionary from dataset keys to
  dictionaries from cache entry keys to PCollections. \<open>self.cache_output_nodes\<close>, the one
  attribute the visitor writes, is passed through the visit functions as a dictionary
  from (dataset key, cache entry key) to value nodes.
\<close>

record optimize_visitor =
  dataset_keys :: "string list"
  cache_dict :: "(string \<rightharpoonup> (bytes \<rightharpoonup> pcollection)) option"
  tensor_keys_to_paths :: "string \<rightharpoonup> bytes option"

type_synonym cache_outputs = "((string \<times> bytes) \<times> value_node) list"

text \<open>\<open>_validate_operation_def\<close>.\<close>

definition validate_operation_def :: "operation_def \<Rightarrow> error + unit" where
  "validate_operation_def d =
     (if cache_coder d \<noteq> None \<and> \<not> is_partitionable d
      then Inl (ValueError ''Non partitionable OperationDefs cannot be cacheable'')
      else if (is_partitionable d \<or> cache_coder d \<noteq> None) \<and> num_outputs d \<noteq> 1
      then Inl (ValueError ''Cacheable OperationDefs must have exactly 1 output'')
      else Inr ())"

text \<open>\<open>self._tensor_keys_to_paths[key]\<close> for every key of an \<open>ExtractFromDict\<close>.\<close>

fun lookup_paths :: "(string \<rightharpoonup> bytes option) \<Rightarrow> string list \<Rightarrow> error + bytes option list" where
  "lookup_paths m [] = Inr []"
| "lookup_paths m (key # ks) =
     (case m key of
        None \<Rightarrow> Inl KeyError
      | Some path \<Rightarrow>
          (case lookup_paths m ks of Inl e \<Rightarrow> Inl e | Inr paths \<Rightarrow> Inr (path # paths)))"

text \<open>The final loop of \<open>_make_next_hashed_path\<close>: \<open>None\<close> as soon as a path is \<open>None\<close>.\<close>

definition hash_paths :: "bytes option list \<Rightarrow> bytes option" where
  "hash_paths paths_to_hash =
     (case those paths_to_hash of None \<Rightarrow> None | Some ps \<Rightarrow> Some (sha1 (concat ps)))"

text \<open>\<open>_make_next_hashed_path\<close>.\<close>

definition make_next_hashed_path ::
  "optimize_visitor \<Rightarrow> bytes option list \<Rightarrow> operation_def \<Rightarrow> error + bytes option" where
  "make_next_hashed_path vis parent_hashed_paths d =
     (case (case kind d of
              ExtractFromDict ks \<Rightarrow> lookup_paths (tensor_keys_to_paths vis) ks
            | _ \<Rightarrow> Inr (map Some (attr_paths d))) of
        Inl e \<Rightarrow> Inl e
      | Inr own \<Rightarrow>
          Inr (hash_paths (parent_hashed_paths @ [Some (class_name (kind d))] @ own)))"

text \<open>
  The condition of \<open>_apply_operation_on_fine_grained_view\<close> for one dataset key:
  \<open>operation_def.cache_coder and self._cache_dict.get(dataset_key, {}).get(cache_entry_key)
  is not None\<close>. The result is the coder when the condition holds and \<open>None\<close> when it
  does not; the dictionary is only read when the operation has a coder.
\<close>

definition cache_hit ::
  "optimize_visitor \<Rightarrow> operation_def \<Rightarrow> string \<Rightarrow> bytes \<Rightarrow> error + coder option" where
  "cache_hit vis d dataset_key cache_entry_key =
     (case cache_coder d of
        None \<Rightarrow> Inr None
      | Some c \<Rightarrow>
          (case cache_dict vis of
             None \<Rightarrow> Inl AttributeError
           | Some cd \<Rightarrow>
               (case (case cd dataset_key of None \<Rightarrow> Map.empty | Some entries \<Rightarrow> entries)
                       cache_entry_key of
                  None \<Rightarrow> Inr None
                | Some _ \<Rightarrow> Inr (Some c))))"

text \<open>
  The body of the loop of \<open>_apply_operation_on_fine_grained_view\<close> for one dataset key:
  the output for that key and the updated \<open>cache_output_nodes\<close>.
\<close>

definition apply_on_partition ::
  "optimize_visitor \<Rightarrow> operation_def \<Rightarrow> fine_grained \<Rightarrow> bytes \<Rightarrow> string \<Rightarrow> cache_outputs
     \<Rightarrow> error + (value_node \<times> cache_outputs)" where
  "apply_on_partition vis d fine cache_entry_key dataset_key con =
     (case cache_hit vis d dataset_key cache_entry_key of
        Inl e \<Rightarrow> Inl e
      | Inr (Some c) \<Rightarrow>
          (case unpack1 (outputs (decode_cache dataset_key cache_entry_key (label d) c) []) of
             Inl e \<Rightarrow> Inl e
           | Inr op_output \<Rightarrow> Inr (op_output, con))
      | Inr None \<Rightarrow>
          (case map_of fine dataset_key of
             None \<Rightarrow> Inl KeyError
           | Some value_node \<Rightarrow>
               (case unpack1 (outputs (d\<lparr>label := bracket (label d) dataset_key\<rparr>)
                                [value_node]) of
                  Inl e \<Rightarrow> Inl e
                | Inr op_output \<Rightarrow>
                    (case cache_coder d of
                       None \<Rightarrow> Inr (op_output, con)
                     | Some c \<Rightarrow>
                         (case unpack1 (outputs
                                 (encode_cache c
                                    (bracket (bracket ''EncodeCache'' (label d)) dataset_key))
                                 [op_output]) of
                            Inl e \<Rightarrow> Inl e
                          | Inr encoded_cache \<Rightarrow>
                              Inr (op_output,
                                   AList.update (dataset_key, cache_entry_key) encoded_cache
                                     con))))))"

text \<open>The loop over \<open>self._dataset_keys\<close>, filling \<open>result_fine_grained_view\<close>.\<close>

fun apply_on_partitions ::
  "optimize_visitor \<Rightarrow> operation_def \<Rightarrow> fine_grained \<Rightarrow> bytes \<Rightarrow> string list
     \<Rightarrow> fine_grained \<Rightarrow> cache_outputs \<Rightarrow> error + (fine_grained \<times> cache_outputs)" where
  "apply_on_partitions vis d fine cache_entry_key [] result con = Inr (result, con)"
| "apply_on_partitions vis d fine cache_entry_key (dataset_key # ks) result con =
     (case apply_on_partition vis d fine cache_entry_key dataset_key con of
        Inl e \<Rightarrow> Inl e
      | Inr (op_output, con') \<Rightarrow>
          apply_on_partitions vis d fine cache_entry_key ks
            (AList.update dataset_key op_output result) con')"

text \<open>
  What the source calls in modules that are not part of it, as parameters:
  \<open>analyzer_cache.make_cache_entry_key\<close>, and \<open>len\<close> of a \<open>nodes.ValueNode\<close>.
\<close>

record library =
  make_cache_entry_key :: "bytes \<Rightarrow> bytes"
  value_node_len :: "value_node \<Rightarrow> nat"

text \<open>
  \<open>_apply_operation_on_fine_grained_view\<close>. Concatenating \<open>bytes\<close> with a
  \<open>next_hashed_path\<close> that is \<open>None\<close> is a \<open>TypeError\<close>.
\<close>

definition apply_operation_on_fine_grained_view ::
  "library \<Rightarrow> optimize_visitor \<Rightarrow> operation_def \<Rightarrow> fine_grained \<Rightarrow> bytes option
     \<Rightarrow> cache_outputs \<Rightarrow> error + (fine_grained \<times> cache_outputs)" where
  "apply_operation_on_fine_grained_view lib vis d fine next_hashed_path con =
     (case next_hashed_path of
        None \<Rightarrow> Inl TypeError
      | Some path \<Rightarrow>
          apply_on_partitions vis d fine (make_cache_entry_key lib (label d @ ''-'' @ path))
            (dataset_keys vis) [] con)"

text \<open>
  \<open>operation_def._replace(dataset_key=key, label=lbl)\<close>, which the source calls on an
  \<open>ApplySavedModel\<close>; a class without these two fields does not accept it.
\<close>

definition replace_dataset_key_label ::
  "operation_def \<Rightarrow> string \<Rightarrow> string \<Rightarrow> error + operation_def" where
  "replace_dataset_key_label d key lbl =
     (case kind d of
        ApplySavedModel _ ph \<Rightarrow> Inr (d\<lparr>kind := ApplySavedModel (Some key) ph, label := lbl\<rparr>)
      | _ \<Rightarrow> Inl (ValueError ''Got unexpected field names''))"

text \<open>The loop of \<open>_visit_apply_savedmodel_operation\<close> over \<open>self._dataset_keys\<close>.\<close>

fun apply_savedmodel_partitions ::
  "operation_def \<Rightarrow> value_node \<Rightarrow> string list \<Rightarrow> fine_grained \<Rightarrow> error + fine_grained" where
  "apply_savedmodel_partitions d flat [] fine = Inr fine"
| "apply_savedmodel_partitions d flat (key # ks) fine =
     (case replace_dataset_key_label d key (bracket (label d) key) of
        Inl e \<Rightarrow> Inl e
      | Inr d' \<Rightarrow>
          (case unpack1 (outputs d' [flat]) of
             Inl e \<Rightarrow> Inl e
           | Inr v \<Rightarrow> apply_savedmodel_partitions d flat ks (AList.update key v fine)))"

text \<open>\<open>_visit_apply_savedmodel_operation\<close>.\<close>

definition visit_apply_savedmodel_operation ::
  "optimize_visitor \<Rightarrow> operation_def \<Rightarrow> optimization_view list
     \<Rightarrow> error + optimization_view list" where
  "visit_apply_savedmodel_operation vis d upstream_views =
     (case unpack1 upstream_views of
        Inl e \<Rightarrow> Inl e
      | Inr upstream_view \<Rightarrow>
          if truthy (fine_grained_view upstream_view)
          then Inl (ValueError
                 ''Was not expecting a fine_grained_view input for ApplySavedModel'')
          else
            (case apply_savedmodel_partitions d (flattened_view upstream_view)
                    (dataset_keys vis) [] of
               Inl e \<Rightarrow> Inl e
             | Inr fine \<Rightarrow>
                 (case unpack1 (outputs d [flattened_view upstream_view]) of
                    Inl e \<Rightarrow> Inl e
                  | Inr flat \<Rightarrow>
                      (case new_OptimizationView False flat (Some fine)
                              (Some ''APPLY_SAVEDMODEL'') of
                         Inl e \<Rightarrow> Inl e
                       | Inr view \<Rightarrow> Inr [view]))))"

text \<open>
  The fine-grained views of \<open>_visit_partitionable_operation\<close>: the operation applied on
  the upstream fine-grained view when that is truthy, \<open>(None,) * num_outputs\<close> otherwise.
\<close>

definition partitionable_fine_grained_views ::
  "library \<Rightarrow> optimize_visitor \<Rightarrow> operation_def \<Rightarrow> optimization_view \<Rightarrow> bytes option
     \<Rightarrow> cache_outputs \<Rightarrow> error + (fine_grained option list \<times> cache_outputs)" where
  "partitionable_fine_grained_views lib vis d upstream_view next_hashed_path con =
     (case fine_grained_view upstream_view of
        None \<Rightarrow> Inr (replicate (num_outputs d) None, con)
      | Some items \<Rightarrow>
          if items = [] then Inr (replicate (num_outputs d) None, con)
          else
            (case apply_operation_on_fine_grained_view lib vis d items next_hashed_path con of
               Inl e \<Rightarrow> Inl e
             | Inr (result, con') \<Rightarrow> Inr ([Some result], con')))"

text \<open>\<open>_visit_partitionable_operation\<close>.\<close>

definition visit_partitionable_operation ::
  "library \<Rightarrow> optimize_visitor \<Rightarrow> operation_def \<Rightarrow> optimization_view list \<Rightarrow> cache_outputs
     \<Rightarrow> error + (optimization_view list \<times> cache_outputs)" where
  "visit_partitionable_operation lib vis d upstream_views con =
     (case unpack1 upstream_views of
        Inl e \<Rightarrow> Inl e
      | Inr upstream_view \<Rightarrow>
          (let prefer = (prefer_fine_grained_view upstream_view \<or>
                         (truthy (fine_grained_view upstream_view) \<and> cache_coder d \<noteq> None))
           in case make_next_hashed_path vis (map hashed_path upstream_views) d of
                Inl e \<Rightarrow> Inl e
              | Inr next_hashed_path \<Rightarrow>
                  (case partitionable_fine_grained_views lib vis d upstream_view
                          next_hashed_path con of
                     Inl e \<Rightarrow> Inl e
                   | Inr (fine_grained_views, con') \<Rightarrow>
                       (let flattened_views = outputs d [flattened_view upstream_view]
                        in if length fine_grained_views \<noteq> length flattened_views
                           then Inl AssertionError
                           else
                             (case sequence
                                     (map (\<lambda>(flat, fine).
                                             new_OptimizationView prefer flat fine
                                               next_hashed_path)
                                        (zip flattened_views fine_grained_views)) of
                                Inl e \<Rightarrow> Inl e
                              | Inr views \<Rightarrow> Inr (views, con'))))))"

text \<open>
  The flattening branch of \<open>visit\<close>: \<open>view.fine_grained_view.values()\<close> of every input
  view in turn (an \<open>AttributeError\<close> on a view whose fine-grained view is \<open>None\<close>), the
  assertion on the \<open>len\<close> of the collected value nodes, and the \<open>Flatten\<close> operation
  applied to them.
\<close>

fun disaggregate :: "optimization_view list \<Rightarrow> error + value_node list" where
  "disaggregate [] = Inr []"
| "disaggregate (view # views) =
     (case fine_grained_view view of
        None \<Rightarrow> Inl AttributeError
      | Some items \<Rightarrow>
          (case disaggregate views of
             Inl e \<Rightarrow> Inl e
           | Inr values \<Rightarrow> Inr (map snd items @ values)))"

definition flatten_cache ::
  "library \<Rightarrow> operation_def \<Rightarrow> optimization_view list \<Rightarrow> error + value_node list" where
  "flatten_cache lib d input_values =
     (case disaggregate input_values of
        Inl e \<Rightarrow> Inl e
      | Inr disaggregated_input_values \<Rightarrow>
          if length (remdups (map (value_node_len lib) disaggregated_input_values)) \<noteq> 1
          then Inl AssertionError
          else Inr (outputs (flatten (bracket ''FlattenCache'' (label d)))
                      disaggregated_input_values))"

text \<open>\<open>isinstance(operation_def, beam_nodes.ApplySavedModel) and operation_def.phase == 0\<close>.\<close>

definition is_apply_savedmodel_phase0 :: "operation_def \<Rightarrow> bool" where
  "is_apply_savedmodel_phase0 d =
     (case kind d of ApplySavedModel _ ph \<Rightarrow> ph = 0 | _ \<Rightarrow> False)"

text \<open>\<open>_OptimizeVisitor.visit\<close>.\<close>

definition visit ::
  "library \<Rightarrow> optimize_visitor \<Rightarrow> operation_def \<Rightarrow> optimization_view list \<Rightarrow> cache_outputs
     \<Rightarrow> error + (optimization_view list \<times> cache_outputs)" where
  "visit lib vis d input_values con =
     (case validate_operation_def d of
        Inl e \<Rightarrow> Inl e
      | Inr _ \<Rightarrow>
          if is_apply_savedmodel_phase0 d
          then (case visit_apply_savedmodel_operation vis d input_values of
                  Inl e \<Rightarrow> Inl e
                | Inr views \<Rightarrow> Inr (views, con))
          else if \<not> Option.is_none (cache_dict vis) \<and> is_partitionable d
          then visit_partitionable_operation lib vis d input_values con
          else
            (case (if input_values \<noteq> [] \<and>
                      list_ex (\<lambda>v. truthy (fine_grained_view v) \<and> prefer_fine_grained_view v)
                        input_values
                   then flatten_cache lib d input_values
                   else Inr (map flattened_view input_values)) of
               Inl e \<Rightarrow> Inl e
             | Inr next_inputs \<Rightarrow>
                 (case sequence
                         (map (\<lambda>flat. new_OptimizationView False flat None None)
                            (outputs d next_inputs)) of
                    Inl e \<Rightarrow> Inl e
                  | Inr views \<Rightarrow> Inr (views, con))))"

text \<open>\<open>_OptimizeVisitor.validate_value\<close>.\<close>

definition validate_value :: "optimize_visitor \<Rightarrow> optimization_view \<Rightarrow> error + unit" where
  "validate_value vis v =
     (case fine_grained_view v of
        None \<Rightarrow> Inr ()
      | Some items \<Rightarrow>
          if items \<noteq> [] \<and> set (map fst items) \<noteq> set (dataset_keys vis)
          then Inl AssertionError
          else Inr ())"

subsection \<open>Traversal\<close>

text \<open>
  Modelled from the spec: \<open>nodes.Traverser\<close>, which is not part of the source. It walks
  the graph below a value node bottom-up, computes one result per node with the visitor,
  validates every result with \<open>validate_value\<close>, and memoizes the results per value node.
  The state is the memo table together with the visitor's \<open>cache_output_nodes\<close>.
\<close>

record traverser_state =
  cached_value_nodes_values :: "(value_node \<times> optimization_view) list"
  cache_output_nodes :: cache_outputs

fun update_all :: "('k \<times> 'v) list \<Rightarrow> ('k \<times> 'v) list \<Rightarrow> ('k \<times> 'v) list" where
  "update_all [] al = al"
| "update_all ((k, v) # kvs) al = update_all kvs (AList.update k v al)"

fun visit_value_node ::
  "library \<Rightarrow> optimize_visitor \<Rightarrow> value_node \<Rightarrow> traverser_state
     \<Rightarrow> error + (optimization_view \<times> traverser_state)"
and visit_operation ::
  "library \<Rightarrow> optimize_visitor \<Rightarrow> operation_node \<Rightarrow> traverser_state
     \<Rightarrow> error + traverser_state"
and visit_inputs ::
  "library \<Rightarrow> optimize_visitor \<Rightarrow> value_node list \<Rightarrow> traverser_state
     \<Rightarrow> error + (optimization_view list \<times> traverser_state)"
where
  "visit_value_node lib vis (ValueNode operation i) st =
     (case map_of (cached_value_nodes_values st) (ValueNode operation i) of
        Some value \<Rightarrow> Inr (value, st)
      | None \<Rightarrow>
          (case visit_operation lib vis operation st of
             Inl e \<Rightarrow> Inl e
           | Inr st' \<Rightarrow>
               (case map_of (cached_value_nodes_values st') (ValueNode operation i) of
                  None \<Rightarrow> Inl KeyError
                | Some value \<Rightarrow> Inr (value, st'))))"
| "visit_operation lib vis (OperationNode d ins) st =
     (case visit_inputs lib vis ins st of
        Inl e \<Rightarrow> Inl e
      | Inr (input_values, st1) \<Rightarrow>
          (case visit lib vis d input_values (cache_output_nodes st1) of
             Inl e \<Rightarrow> Inl e
           | Inr (values, con) \<Rightarrow>
               (case sequence (map (validate_value vis) values) of
                  Inl e \<Rightarrow> Inl e
                | Inr _ \<Rightarrow>
                    Inr \<lparr>cached_value_nodes_values =
                           update_all (zip (outputs d ins) values)
                             (cached_value_nodes_values st1),
                         cache_output_nodes = con\<rparr>)))"
| "visit_inputs lib vis [] st = Inr ([], st)"
| "visit_inputs lib vis (v # vs) st =
     (case visit_value_node lib vis v st of
        Inl e \<Rightarrow> Inl e
      | Inr (value, st1) \<Rightarrow>
          (case visit_inputs lib vis vs st1 of
             Inl e \<Rightarrow> Inl e
           | Inr (values, st2) \<Rightarrow> Inr (value # values, st2)))"

text \<open>
  \<open>_perform_cache_optimization\<close>. \<open>keys\<close> is the argument \<open>dataset_keys\<close>, \<open>None\<close> or
  the iterable of keys as a list, and \<open>sorted(dataset_keys or {})\<close> is what the visitor
  keeps; \<open>paths\<close> is \<open>tensor_keys_to_paths\<close> and \<open>cd\<close> is \<open>cache_dict\<close>.
\<close>

definition perform_cache_optimization ::
  "library \<Rightarrow> value_node \<Rightarrow> string list option \<Rightarrow> (string \<rightharpoonup> bytes option)
     \<Rightarrow> (string \<rightharpoonup> (bytes \<rightharpoonup> pcollection)) option
     \<Rightarrow> error + (value_node \<times> cache_outputs option)" where
  "perform_cache_optimization lib saved_model_future keys paths cd =
     (let optimize_visitor =
            \<lparr>dataset_keys = sort (case keys of None \<Rightarrow> [] | Some ks \<Rightarrow> ks),
             cache_dict = cd, tensor_keys_to_paths = paths\<rparr>
      in case visit_value_node lib optimize_visitor saved_model_future
                \<lparr>cached_value_nodes_values = [], cache_output_nodes = []\<rparr> of
           Inl e \<Rightarrow> Inl e
         | Inr (view, st) \<Rightarrow>
             (case cd of
                None \<Rightarrow>
                  if cache_output_nodes st \<noteq> [] then Inl AssertionError
                  else Inr (flattened_view view, None)
              | Some _ \<Rightarrow> Inr (flattened_view view, Some (cache_output_nodes st))))"

section \<open>An example graph\<close>

text \<open>
  One phase of an analysis over the input \<open>x\<close>: the saved model is created and applied,
  \<open>x\<close> is extracted from its outputs, a cacheable and partitionable accumulation runs on
  it, and a merge that is not partitionable combines the partitions.
\<close>

definition example_library :: library where
  "example_library = \<lparr>make_cache_entry_key = (\<lambda>key. ''v1-'' @ key), value_node_len = (\<lambda>_. 2)\<rparr>"

definition create_saved_model :: operation_node where
  "create_saved_model =
     OperationNode
       \<lparr>kind = CreateSavedModel [] [], label = ''CreateSavedModelForAnalyzerInputs[0]'',
        num_outputs = 1, is_partitionable = False, cache_coder = None, attr_paths = []\<rparr> []"

definition apply_saved_model_op :: operation_def where
  "apply_saved_model_op =
     \<lparr>kind = ApplySavedModel None 0, label = ''ApplySavedModel[0]'',
      num_outputs = 1, is_partitionable = True, cache_coder = None, attr_paths = []\<rparr>"

definition apply_saved_model :: operation_node where
  "apply_saved_model = OperationNode apply_saved_model_op [ValueNode create_saved_model 0]"

definition extract_op :: operation_def where
  "extract_op =
     \<lparr>kind = ExtractFromDict [''x''], label = ''x'',
      num_outputs = 1, is_partitionable = True, cache_coder = None, attr_paths = []\<rparr>"

definition extract_x :: operation_node where
  "extract_x = OperationNode extract_op [ValueNode apply_saved_model 0]"

definition accumulate_op :: operation_def where
  "accumulate_op =
     \<lparr>kind = OtherOperation ''CacheableCombineAccumulate'', label = ''min'',
      num_outputs = 1, is_partitionable = True, cache_coder = Some (Coder ''c''),
      attr_paths = [''combiner'']\<rparr>"

definition accumulate :: operation_node where
  "accumulate = OperationNode accumulate_op [ValueNode extract_x 0]"

definition merge_op :: operation_def where
  "merge_op =
     \<lparr>kind = OtherOperation ''CacheableCombineMerge'', label = ''merge'',
      num_outputs = 1, is_partitionable = False, cache_coder = None, attr_paths = []\<rparr>"

definition merge :: operation_node where
  "merge = OperationNode merge_op [ValueNode accumulate 0]"

text \<open>
  The cache entry key of the accumulation above a fine-grained view whose hashed path is
  \<open>''h''\<close>, a cache that holds it for the dataset \<open>''a''\<close> only, and a visitor over the
  datasets \<open>''a''\<close> and \<open>''b''\<close> with that cache.
\<close>

definition accumulate_path :: bytes where
  "accumulate_path = sha1 (''h'' @ ''CacheableCombineAccumulate'' @ ''combiner'')"

definition accumulate_key :: bytes where
  "accumulate_key = ''v1-'' @ ''min'' @ ''-'' @ accumulate_path"

definition example_cache :: "string \<rightharpoonup> (bytes \<rightharpoonup> pcollection)" where
  "example_cache = [''a'' \<mapsto> [accumulate_key \<mapsto> PCollection ''cached'']]"

definition example_visitor :: optimize_visitor where
  "example_visitor =
     \<lparr>dataset_keys = [''a'', ''b''], cache_dict = Some example_cache,
      tensor_keys_to_paths = [''x'' \<mapsto> Some ''px'']\<rparr>"

text \<open>Views as an upstream operation would have produced them.\<close>

definition partition_node :: "string \<Rightarrow> value_node" where
  "partition_node key =
     ValueNode (OperationNode
       \<lparr>kind = ExtractFromDict [''x''], label = bracket ''x'' key,
        num_outputs = 1, is_partitionable = True, cache_coder = None, attr_paths = []\<rparr> []) 0"

definition fine_view :: "bool \<Rightarrow> string list \<Rightarrow> optimization_view" where
  "fine_view prefer ks =
     \<lparr>prefer_fine_grained_view = prefer, flattened_view = ValueNode extract_x 0,
      fine_grained_view = Some (map (\<lambda>key. (key, partition_node key)) ks),
      hashed_path = Some ''h''\<rparr>"

definition flat_view :: optimization_view where
  "flat_view =
     \<lparr>prefer_fine_grained_view = False, flattened_view = ValueNode create_saved_model 0,
      fine_grained_view = None, hashed_path = None\<rparr>"

text \<open>
  A merge with a second input that comes straight from the saved model, and a visitor for
  which the path of \<open>x\<close> is unknown.
\<close>

definition merge_two :: operation_node where
  "merge_two = OperationNode merge_op [ValueNode accumulate 0, ValueNode create_saved_model 0]"

definition unknown_path_visitor :: optimize_visitor where
  "unknown_path_visitor =
     \<lparr>dataset_keys = [''a'', ''b''], cache_dict = Some Map.empty,
      tensor_keys_to_paths = [''x'' \<mapsto> None]\<rparr>"

text \<open>The same datasets with caching enabled and nothing cached yet.\<close>

definition uncached_visitor :: optimize_visitor where
  "uncached_visitor =
     \<lparr>dataset_keys = [''a'', ''b''], cache_dict = Some Map.empty,
      tensor_keys_to_paths = [''x'' \<mapsto> Some ''px'']\<rparr>"

section \<open>The invariant of optimization views\<close>

text \<open>
  What the specification requires of every \<open>_OptimizationView\<close>: a view that prefers its
  fine-grained view has a non-empty one, and the keys of a fine-grained view are exactly
  the dataset keys of the visitor.
\<close>

definition view_invariant :: "optimize_visitor \<Rightarrow> optimization_view \<Rightarrow> bool" where
  "view_invariant vis v =
     ((prefer_fine_grained_view v \<longrightarrow> truthy (fine_grained_view v)) \<and>
      (case fine_grained_view v of
         None \<Rightarrow> True
       | Some items \<Rightarrow> set (map fst items) = set (dataset_keys vis)))"

section \<open>Phase planner\<close>

text \<open>
  A tensor is known by its name. A tensor sink is an entry of the collection
  \<open>TENSOR_REPLACEMENTS\<close>: the tensor to replace, the value node that computes it, and
  whether it is an asset file path. Of the \<open>tf.Graph\<close> the loop of \<open>build\<close> reads that
  collection and, through the graph analyzer, on which source tensors (fed inputs and
  the tensors of tensor sinks) a tensor of the graph depends (\<open>depends_on\<close>).
\<close>

record tensor_sink =
  tensor :: string
  future :: value_node
  is_asset_filepath :: bool

record graph =
  tensor_replacements :: "tensor_sink list"
  depends_on :: "string \<Rightarrow> string list"

text \<open>
  Modelled from the spec: \<open>graph_tools.InitializableGraphAnalyzer.ready_to_run\<close>, which
  is not part of the source. The analyzer is built from the graph and the dictionary
  \<open>sink_tensors_ready\<close> as it is at the start of an iteration, and answers whether a
  tensor is resolvable without running a further aggregation: whether none of the tensors
  it depends on is marked unresolved in that dictionary.
\<close>

definition ready_to_run :: "graph \<Rightarrow> (string \<times> bool) list \<Rightarrow> string \<Rightarrow> bool" where
  "ready_to_run g replaced_tensors_ready t =
     list_all (\<lambda>u. map_of replaced_tensors_ready u \<noteq> Some False) (depends_on g t)"

text \<open>\<open>_ReadyVisitor.visit\<close>: the same readiness for every output.\<close>

definition ready_visit ::
  "graph \<Rightarrow> (string \<times> bool) list \<Rightarrow> operation_def \<Rightarrow> bool list \<Rightarrow> bool list" where
  "ready_visit g replaced_tensors_ready d input_values =
     replicate (num_outputs d)
       (case kind d of
          TensorSource tensors \<Rightarrow> list_all (ready_to_run g replaced_tensors_ready) tensors
        | _ \<Rightarrow> list_all id input_values)"

text \<open>
  Modelled from the spec: \<open>nodes.Traverser\<close> with the \<open>_ReadyVisitor\<close>: the inputs of
  an operation are visited first, then the operation, and the result of a value node is
  the one at its index among the results of its operation (a \<open>KeyError\<close> when the
  operation has no such output). The visitor has no state, so the memo table of the
  traverser is left out.
\<close>

fun ready_value_node ::
  "graph \<Rightarrow> (string \<times> bool) list \<Rightarrow> value_node \<Rightarrow> error + bool"
and ready_inputs ::
  "graph \<Rightarrow> (string \<times> bool) list \<Rightarrow> value_node list \<Rightarrow> error + bool list"
where
  "ready_value_node g r (ValueNode (OperationNode d ins) i) =
     (case ready_inputs g r ins of
        Inl e \<Rightarrow> Inl e
      | Inr input_values \<Rightarrow>
          if i < length (ready_visit g r d input_values)
          then Inr (ready_visit g r d input_values ! i)
          else Inl KeyError)"
| "ready_inputs g r [] = Inr []"
| "ready_inputs g r (v # vs) =
     (case ready_value_node g r v of
        Inl e \<Rightarrow> Inl e
      | Inr b \<Rightarrow> (case ready_inputs g r vs of Inl e \<Rightarrow> Inl e | Inr bs \<Rightarrow> Inr (b # bs)))"

text \<open>
  The state of the loop of \<open>build\<close> that its condition and its readiness test read and
  write: the phase counter, the dictionary \<open>sink_tensors_ready\<close>, and of the list
  \<open>tensor_bindings\<close> the tensor each binding is for, in the order the bindings are
  appended. The value nodes the loop builds (the saved models, the translated graph and
  the binding nodes themselves) are read by neither.
\<close>

record planner_state =
  phase :: nat
  tensor_bindings :: "string list"
  sink_tensors_ready :: "(string \<times> bool) list"

text \<open>
  The \<open>for\<close> loop over the tensor sinks in one iteration: a sink that is already ready is
  skipped, one whose value node is not ready under the analyzer of this iteration is
  skipped, any other is bound and marked ready.
\<close>

fun resolve_sinks ::
  "graph \<Rightarrow> (string \<times> bool) list \<Rightarrow> tensor_sink list \<Rightarrow> planner_state
     \<Rightarrow> error + planner_state" where
  "resolve_sinks g analyzer_ready [] st = Inr st"
| "resolve_sinks g analyzer_ready (s # rest) st =
     (case map_of (sink_tensors_ready st) (tensor s) of
        None \<Rightarrow> Inl KeyError
      | Some True \<Rightarrow> resolve_sinks g analyzer_ready rest st
      | Some False \<Rightarrow>
          (case ready_value_node g analyzer_ready (future s) of
             Inl e \<Rightarrow> Inl e
           | Inr False \<Rightarrow> resolve_sinks g analyzer_ready rest st
           | Inr True \<Rightarrow>
               resolve_sinks g analyzer_ready rest
                 (st\<lparr>tensor_bindings := tensor_bindings st @ [tensor s],
                     sink_tensors_ready :=
                       AList.update (tensor s) True (sink_tensors_ready st)\<rparr>)))"

text \<open>
  The \<open>while\<close> loop of \<open>build\<close>: \<open>None\<close> when it runs forever, an error when an iteration
  raises, the final state otherwise.
\<close>

partial_function (option) phase_loop ::
  "graph \<Rightarrow> tensor_sink list \<Rightarrow> planner_state \<Rightarrow> (error + planner_state) option" where
  "phase_loop g tensor_sinks st =
     (if list_all snd (sink_tensors_ready st) then Some (Inr st)
      else case resolve_sinks g (sink_tensors_ready st) tensor_sinks st of
             Inl e \<Rightarrow> Some (Inl e)
           | Inr st' \<Rightarrow> phase_loop g tensor_sinks (st'\<lparr>phase := Suc (phase st')\<rparr>))"

text \<open>
  \<open>build\<close> up to the end of its loop: the tensor sinks are read from the graph, every
  sink tensor starts unready, and the loop runs from phase 0.
\<close>

definition initial_state :: "graph \<Rightarrow> planner_state" where
  "initial_state g =
     \<lparr>phase = 0, tensor_bindings = [],
      sink_tensors_ready =
        fold (\<lambda>tensor_sink. AList.update (tensor tensor_sink) False)
          (tensor_replacements g) []\<rparr>"

definition build_phases :: "graph \<Rightarrow> (error + planner_state) option" where
  "build_phases g = phase_loop g (tensor_replacements g) (initial_state g)"

text \<open>
  The states in which the condition of the \<open>while\<close> loop is evaluated: the initial one,
  and the one each completed iteration leaves.
\<close>

inductive loop_state :: "graph \<Rightarrow> planner_state \<Rightarrow> bool" for g where
  initial: "loop_state g (initial_state g)"
| iteration:
    "loop_state g st \<Longrightarrow> \<not> list_all snd (sink_tensors_ready st) \<Longrightarrow>
     resolve_sinks g (sink_tensors_ready st) (tensor_replacements g) st = Inr st' \<Longrightarrow>
     loop_state g (st'\<lparr>phase := Suc (phase st')\<rparr>)"

text \<open>The tensors a dictionary \<open>sink_tensors_ready\<close> marks unresolved.\<close>

definition unresolved :: "(string \<times> bool) list \<Rightarrow> string set" where
  "unresolved ready = {t. map_of ready t = Some False}"

subsection \<open>Dependencies between tensor sinks\<close>

text \<open>
  The tensors a value node reads from the graph: those of the \<open>TensorSource\<close> operations
  below it. A sink requires the source tensors these tensors depend on; the dependency
  relation of a graph holds a pair \<open>(u, t)\<close> when a sink for the tensor \<open>t\<close> requires the
  tensor \<open>u\<close>. The input graph is acyclic when this relation is. A value node is well
  formed when every value node below it is an output its operation has.
\<close>

fun source_tensors :: "value_node \<Rightarrow> string list"
and source_tensors_list :: "value_node list \<Rightarrow> string list" where
  "source_tensors (ValueNode (OperationNode d ins) i) =
     (case kind d of
        TensorSource tensors \<Rightarrow> tensors
      | _ \<Rightarrow> source_tensors_list ins)"
| "source_tensors_list [] = []"
| "source_tensors_list (v # vs) = source_tensors v @ source_tensors_list vs"

fun well_formed :: "value_node \<Rightarrow> bool"
and well_formed_list :: "value_node list \<Rightarrow> bool" where
  "well_formed (ValueNode (OperationNode d ins) i) = (i < num_outputs d \<and> well_formed_list ins)"
| "well_formed_list [] = True"
| "well_formed_list (v # vs) = (well_formed v \<and> well_formed_list vs)"

definition sink_requires :: "graph \<Rightarrow> tensor_sink \<Rightarrow> string list" where
  "sink_requires g s = concat (map (depends_on g) (source_tensors (future s)))"

definition sink_dependencies :: "graph \<Rightarrow> (string \<times> string) set" where
  "sink_dependencies g =
     {(u, tensor s) | u s. s \<in> set (tensor_replacements g) \<and> u \<in> set (sink_requires g s)}"

text \<open>
  A circular dependency that no sink escapes: a non-empty set of sink tensors such that
  every sink for one of them requires one of them. In a graph whose sinks are for
  distinct tensors, every cycle of the dependency relation gives such a set.
\<close>

definition circular :: "graph \<Rightarrow> string set \<Rightarrow> bool" where
  "circular g C =
     (C \<noteq> {} \<and> C \<subseteq> tensor ` set (tensor_replacements g) \<and>
      (\<forall>s \<in> set (tensor_replacements g).
         tensor s \<in> C \<longrightarrow> (\<exists>u \<in> set (sink_requires g s). u \<in> C)))"

subsection \<open>Example graphs for the planner\<close>

text \<open>
  \<open>min(x)\<close> feeding \<open>max(x - min(x))\<close>: the second sink reads a tensor that depends on
  the first. And two sinks that each read a tensor depending on the other.
\<close>

definition source_node :: "string \<Rightarrow> value_node" where
  "source_node t =
     ValueNode (OperationNode
       \<lparr>kind = TensorSource [t], label = t, num_outputs = 1, is_partitionable = False,
        cache_coder = None, attr_paths = []\<rparr> []) 0"

definition analyzer_node :: "string \<Rightarrow> string \<Rightarrow> value_node" where
  "analyzer_node name t =
     ValueNode (OperationNode
       \<lparr>kind = OtherOperation ''CacheableCombineMerge'', label = name, num_outputs = 1,
        is_partitionable = False, cache_coder = None, attr_paths = []\<rparr> [source_node t]) 0"

definition min_max_graph :: graph where
  "min_max_graph =
     \<lparr>tensor_replacements =
        [\<lparr>tensor = ''max/Placeholder:0'', future = analyzer_node ''max'' ''sub:0'',
          is_asset_filepath = False\<rparr>,
         \<lparr>tensor = ''min/Placeholder:0'', future = analyzer_node ''min'' ''x:0'',
          is_asset_filepath = False\<rparr>],
      depends_on = (\<lambda>t. if t = ''sub:0'' then [''x:0'', ''min/Placeholder:0'']
                         else if t = ''x:0'' then [''x:0''] else [])\<rparr>"

definition circular_graph :: graph where
  "circular_graph =
     \<lparr>tensor_replacements =
        [\<lparr>tensor = ''p:0'', future = analyzer_node ''p'' ''a:0'', is_asset_filepath = False\<rparr>,
         \<lparr>tensor = ''q:0'', future = analyzer_node ''q'' ''b:0'', is_asset_filepath = False\<rparr>],
      depends_on = (\<lambda>t. if t = ''a:0'' then [''q:0''] else if t = ''b:0'' then [''p:0'']
                         else [])\<rparr>"

section \<open>Properties\<close>

subsection \<open>Path hasher\<close>

lemma length_sha1: "length (sha1 m) = 20"
  by (simp add: sha1_def be_bytes_def Let_def split: prod.splits)

lemma serialize_items_error:
  "list_ex contains_func (map snd items) \<Longrightarrow>
   serialize_items items =
     Inl (ValueError ''Unable to serialize op attributes that contain a `func` field'')"
  by (induction items) (auto split: sum.splits)

lemma serialize_items_ok:
  "\<not> list_ex contains_func (map snd items) \<Longrightarrow>
   serialize_items items = Inr (concat (map (\<lambda>kv. [fst kv, SerializeToString (snd kv)]) items))"
  by (induction items) (auto split: sum.splits)

lemma list_ex_map_snd_sort_key:
  "list_ex P (map snd (sort_key f xs)) = list_ex P (map snd xs)"
  by (simp add: list_ex_iff)

lemma filter_key_distinct:
  "distinct (map fst xs) \<Longrightarrow> k \<in> set xs \<Longrightarrow> filter (\<lambda>x. fst k = fst x) xs = [k]"
proof (induction xs)
  case Nil
  then show ?case by simp
next
  case (Cons a xs)
  show ?case
  proof (cases "a = k")
    case True
    with Cons.prems have "filter (\<lambda>x. fst k = fst x) xs = []"
      by (auto simp: filter_empty_conv intro: rev_image_eqI)
    with True show ?thesis by simp
  next
    case False
    with Cons.prems have "k \<in> set xs" "fst a \<noteq> fst k"
      by (auto intro: rev_image_eqI)
    with Cons show ?thesis by auto
  qed
qed

lemma sort_key_permutation:
  assumes "distinct (map fst xs)" and "mset ys = mset xs"
  shows "sort_key fst ys = sort_key fst xs"
proof (rule properties_for_sort_key)
  show "mset (sort_key fst xs) = mset ys" using assms by simp
  show "sorted (map fst (sort_key fst xs))" by simp
  fix k assume k: "k \<in> set (sort_key fst xs)"
  have dy: "distinct (map fst ys)"
    using assms by (metis mset_map mset_eq_imp_distinct_iff)
  have "filter (\<lambda>x. fst k = fst x) (sort_key fst xs) = [k]"
    using assms(1) k by (intro filter_key_distinct) (auto simp: distinct_map)
  moreover have "filter (\<lambda>x. fst k = fst x) ys = [k]"
    using dy k assms(2) by (intro filter_key_distinct) (auto dest: mset_eq_setD)
  ultimately show "filter (\<lambda>x. fst k = fst x) (sort_key fst xs) = filter (\<lambda>x. fst k = fst x) ys"
    by simp
qed

text \<open>
  C9. Serializing the attributes of a graph operation for path hashing fails with the
  \<open>ValueError\<close> as soon as one attribute value has its \<open>func\<close> field set or a non-empty
  \<open>list.func\<close>, and then the path hasher yields no digest for that operation, whatever
  the parents. Without such a value serialization succeeds with the keys and serialized
  values in sorted key order, and it does not depend on the order in which the attribute
  map lists its items.
\<close>

theorem serialize_op_attr_func_rejected:
  "(list_ex contains_func (map snd op_attr) \<longrightarrow>
      serialize_op_attr op_attr =
        Inl (ValueError ''Unable to serialize op attributes that contain a `func` field'') \<and>
      (\<forall>parents digest.
         describe_path_as_analyzer_cache_hash (Some (Operation op_attr)) parents
           \<noteq> Inr (Some digest))) \<and>
   (\<not> list_ex contains_func (map snd op_attr) \<longrightarrow>
      serialize_op_attr op_attr =
        Inr (concat (map (\<lambda>kv. [fst kv, SerializeToString (snd kv)]) (sort_key fst op_attr))) \<and>
      (\<forall>op_attr'. distinct (map fst op_attr) \<and> mset op_attr' = mset op_attr \<longrightarrow>
         serialize_op_attr op_attr' = serialize_op_attr op_attr))"
proof (intro conjI impI allI)
  assume "list_ex contains_func (map snd op_attr)"
  then have "list_ex contains_func (map snd (sort_key fst op_attr))"
    by (simp add: list_ex_map_snd_sort_key)
  then show e: "serialize_op_attr op_attr =
      Inl (ValueError ''Unable to serialize op attributes that contain a `func` field'')"
    unfolding serialize_op_attr_def by (rule serialize_items_error)
  fix parents digest
  show "describe_path_as_analyzer_cache_hash (Some (Operation op_attr)) parents
          \<noteq> Inr (Some digest)"
    using e by (simp add: describe_path_as_analyzer_cache_hash_def node_values_def
        split: option.splits)
next
  assume "\<not> list_ex contains_func (map snd op_attr)"
  then have "\<not> list_ex contains_func (map snd (sort_key fst op_attr))"
    by (simp add: list_ex_map_snd_sort_key)
  then show "serialize_op_attr op_attr =
      Inr (concat (map (\<lambda>kv. [fst kv, SerializeToString (snd kv)]) (sort_key fst op_attr)))"
    unfolding serialize_op_attr_def by (rule serialize_items_ok)
next
  fix op_attr'
  assume "distinct (map fst op_attr) \<and> mset op_attr' = mset op_attr"
  then have "sort_key fst op_attr' = sort_key fst op_attr"
    by (intro sort_key_permutation) simp_all
  then show "serialize_op_attr op_attr' = serialize_op_attr op_attr"
    by (simp add: serialize_op_attr_def)
qed

theorem serialize_op_attr_func_rejected_witness:
  "serialize_op_attr
     [(''f'', \<lparr>HasField_func = False, list_func = [''body''], SerializeToString = ''z''\<rparr>),
      (''T'', \<lparr>HasField_func = False, list_func = [], SerializeToString = ''t''\<rparr>)] =
     Inl (ValueError ''Unable to serialize op attributes that contain a `func` field'') \<and>
   describe_path_as_analyzer_cache_hash
     (Some (Operation
        [(''f'', \<lparr>HasField_func = True, list_func = [], SerializeToString = ''z''\<rparr>)]))
     (Some []) = Inl (ValueError ''Unable to serialize op attributes that contain a `func` field'') \<and>
   serialize_op_attr
     [(''b'', \<lparr>HasField_func = False, list_func = [], SerializeToString = ''x''\<rparr>),
      (''a'', \<lparr>HasField_func = False, list_func = [], SerializeToString = ''y''\<rparr>)] =
     Inr [''a'', ''y'', ''b'', ''x''] \<and>
   serialize_op_attr
     [(''a'', \<lparr>HasField_func = False, list_func = [], SerializeToString = ''y''\<rparr>),
      (''b'', \<lparr>HasField_func = False, list_func = [], SerializeToString = ''x''\<rparr>)] =
   serialize_op_attr
     [(''b'', \<lparr>HasField_func = False, list_func = [], SerializeToString = ''x''\<rparr>),
      (''a'', \<lparr>HasField_func = False, list_func = [], SerializeToString = ''y''\<rparr>)]"
  using serialize_op_attr_func_rejected
      [of "[(''f'', \<lparr>HasField_func = False, list_func = [''body''], SerializeToString = ''z''\<rparr>),
            (''T'', \<lparr>HasField_func = False, list_func = [], SerializeToString = ''t''\<rparr>)]"]
    serialize_op_attr_func_rejected
      [of "[(''b'', \<lparr>HasField_func = False, list_func = [], SerializeToString = ''x''\<rparr>),
            (''a'', \<lparr>HasField_func = False, list_func = [], SerializeToString = ''y''\<rparr>)]"]
  by (simp add: contains_func_def describe_path_as_analyzer_cache_hash_def node_values_def
      serialize_op_attr_def or_empty_def)

lemma those_None_iff: "those xs = None \<longleftrightarrow> None \<in> set xs"
  by (induction xs) (auto split: option.splits)

text \<open>
  C3 as stated fails: with \<open>x\<close> \<open>None\<close> and a list of parents the assertion of the source
  fails instead of \<open>None\<close> being returned, and an operation with a \<open>func\<close> attribute
  whose parents are all known gives an error, not a digest.
\<close>

theorem describe_path_none_with_parents_counterexample:
  "describe_path_as_analyzer_cache_hash None (Some []) = Inl AssertionError \<and>
   describe_path_as_analyzer_cache_hash
     (Some (Operation
        [(''f'', \<lparr>HasField_func = True, list_func = [], SerializeToString = ''z''\<rparr>)]))
     (Some [Some ''p'']) =
     Inl (ValueError ''Unable to serialize op attributes that contain a `func` field'')"
  by (simp add: describe_path_as_analyzer_cache_hash_def or_empty_def node_values_def
      serialize_op_attr_def contains_func_def)

text \<open>
  C3, as the source has it. With \<open>x\<close> \<open>None\<close> the path hasher returns \<open>None\<close> only when
  no parent list is passed; with a parent list its assertion fails. With \<open>x\<close> not \<open>None\<close>
  it returns \<open>None\<close> whenever a parent is \<open>None\<close>. Otherwise a tensor, a string and an
  operation whose attributes hold no \<open>func\<close> field give a digest of 20 bytes, an
  operation with such an attribute gives the \<open>ValueError\<close> of serialization, and any
  other object fails the assertion on its type. Every digest returned has 20 bytes.
\<close>

theorem describe_path_nullability:
  "(x = None \<longrightarrow>
      describe_path_as_analyzer_cache_hash x parents =
        (case parents of None \<Rightarrow> Inr None | Some _ \<Rightarrow> Inl AssertionError)) \<and>
   (x \<noteq> None \<and> None \<in> set (or_empty parents) \<longrightarrow>
      describe_path_as_analyzer_cache_hash x parents = Inr None) \<and>
   (x \<noteq> None \<and> None \<notin> set (or_empty parents) \<longrightarrow>
      (case x of
         Some (Operation op_attr) \<Rightarrow>
           if list_ex contains_func (map snd op_attr)
           then describe_path_as_analyzer_cache_hash x parents =
                  Inl (ValueError ''Unable to serialize op attributes that contain a `func` field'')
           else \<exists>digest. describe_path_as_analyzer_cache_hash x parents = Inr (Some digest) \<and>
                  length digest = 20
       | Some OtherObject \<Rightarrow> describe_path_as_analyzer_cache_hash x parents = Inl AssertionError
       | _ \<Rightarrow> \<exists>digest. describe_path_as_analyzer_cache_hash x parents = Inr (Some digest) \<and>
                  length digest = 20)) \<and>
   (\<forall>digest. describe_path_as_analyzer_cache_hash x parents = Inr (Some digest) \<longrightarrow>
      length digest = 20)"
proof (intro conjI impI allI)
  assume "x = None"
  then show "describe_path_as_analyzer_cache_hash x parents =
      (case parents of None \<Rightarrow> Inr None | Some _ \<Rightarrow> Inl AssertionError)"
    by (simp add: describe_path_as_analyzer_cache_hash_def)
next
  assume a: "x \<noteq> None \<and> None \<in> set (or_empty parents)"
  then have "those (or_empty parents) = None"
    by (simp add: those_None_iff)
  with a show "describe_path_as_analyzer_cache_hash x parents = Inr None"
    by (auto simp: describe_path_as_analyzer_cache_hash_def)
next
  assume a: "x \<noteq> None \<and> None \<notin> set (or_empty parents)"
  then obtain ps where ps: "those (or_empty parents) = Some ps"
    using those_None_iff by fastforce
  from a obtain node where x: "x = Some node" by auto
  show "case x of
         Some (Operation op_attr) \<Rightarrow>
           if list_ex contains_func (map snd op_attr)
           then describe_path_as_analyzer_cache_hash x parents =
                  Inl (ValueError ''Unable to serialize op attributes that contain a `func` field'')
           else \<exists>digest. describe_path_as_analyzer_cache_hash x parents = Inr (Some digest) \<and>
                  length digest = 20
       | Some OtherObject \<Rightarrow> describe_path_as_analyzer_cache_hash x parents = Inl AssertionError
       | _ \<Rightarrow> \<exists>digest. describe_path_as_analyzer_cache_hash x parents = Inr (Some digest) \<and>
                  length digest = 20"
  proof (cases node)
    case (Operation op_attr)
    show ?thesis
    proof (cases "list_ex contains_func (map snd op_attr)")
      case True
      then have "list_ex contains_func (map snd (sort_key fst op_attr))"
        by (simp add: list_ex_map_snd_sort_key)
      then show ?thesis
        using x Operation ps True
        by (simp add: describe_path_as_analyzer_cache_hash_def node_values_def
            serialize_op_attr_def serialize_items_error)
    next
      case False
      then have "\<not> list_ex contains_func (map snd (sort_key fst op_attr))"
        by (simp add: list_ex_map_snd_sort_key)
      then show ?thesis
        using x Operation ps False
        by (simp add: describe_path_as_analyzer_cache_hash_def node_values_def
            serialize_op_attr_def serialize_items_ok length_sha1)
    qed
  qed (use x ps in \<open>simp_all add: describe_path_as_analyzer_cache_hash_def node_values_def
        length_sha1\<close>)
next
  fix digest
  assume "describe_path_as_analyzer_cache_hash x parents = Inr (Some digest)"
  then show "length digest = 20"
    by (auto simp: describe_path_as_analyzer_cache_hash_def length_sha1
        split: option.splits sum.splits)
qed

theorem describe_path_nullability_witness:
  "describe_path_as_analyzer_cache_hash None None = Inr None \<and>
   describe_path_as_analyzer_cache_hash (Some (Str ''x'')) (Some [Some ''p'', None]) = Inr None \<and>
   (\<exists>digest. describe_path_as_analyzer_cache_hash (Some (Tensor 0)) (Some [Some ''p''])
        = Inr (Some digest) \<and> length digest = 20) \<and>
   length (sha1 (''0'' @ ''p'')) = 20"
  using describe_path_nullability [of None None]
    describe_path_nullability [of "Some (Str ''x'')" "Some [Some ''p'', None]"]
    describe_path_nullability [of "Some (Tensor 0)" "Some [Some ''p'']"]
  by (simp add: or_empty_def describe_path_as_analyzer_cache_hash_def node_values_def
      str_nat.simps)

subsection \<open>Cache optimizer\<close>

text \<open>
  C7. Visiting an operation that declares a cache coder but is not partitionable fails
  with the \<open>ValueError\<close> of \<open>_validate_operation_def\<close>, and so does visiting a cacheable
  operation whose declared output count is not one; the traverser's visit of such an
  operation node yields an error and no state. A visit that succeeds on an operation with
  a cache coder has a partitionable operation with exactly one output.
\<close>

theorem visit_validates_operation_def:
  "(cache_coder d \<noteq> None \<and> \<not> is_partitionable d \<longrightarrow>
      visit lib vis d input_values con =
        Inl (ValueError ''Non partitionable OperationDefs cannot be cacheable'') \<and>
      (\<forall>ins st. \<exists>e. visit_operation lib vis (OperationNode d ins) st = Inl e)) \<and>
   (cache_coder d \<noteq> None \<and> is_partitionable d \<and> num_outputs d \<noteq> 1 \<longrightarrow>
      visit lib vis d input_values con =
        Inl (ValueError ''Cacheable OperationDefs must have exactly 1 output'') \<and>
      (\<forall>ins st. \<exists>e. visit_operation lib vis (OperationNode d ins) st = Inl e)) \<and>
   (\<forall>views con'. visit lib vis d input_values con = Inr (views, con') \<and> cache_coder d \<noteq> None
      \<longrightarrow> is_partitionable d \<and> num_outputs d = 1)"
  by (auto simp: visit_def validate_operation_def_def split: sum.splits if_splits prod.splits)

theorem visit_validates_operation_def_witness:
  "visit \<lparr>make_cache_entry_key = id, value_node_len = (\<lambda>_. 2)\<rparr>
     \<lparr>dataset_keys = [''a''], cache_dict = None, tensor_keys_to_paths = Map.empty\<rparr>
     \<lparr>kind = OtherOperation ''Combine'', label = ''c'', num_outputs = 1,
      is_partitionable = False, cache_coder = Some (Coder ''k''), attr_paths = []\<rparr> [] [] =
     Inl (ValueError ''Non partitionable OperationDefs cannot be cacheable'') \<and>
   visit \<lparr>make_cache_entry_key = id, value_node_len = (\<lambda>_. 2)\<rparr>
     \<lparr>dataset_keys = [''a''], cache_dict = None, tensor_keys_to_paths = Map.empty\<rparr>
     \<lparr>kind = OtherOperation ''Combine'', label = ''c'', num_outputs = 2,
      is_partitionable = True, cache_coder = Some (Coder ''k''), attr_paths = []\<rparr> [] [] =
     Inl (ValueError ''Cacheable OperationDefs must have exactly 1 output'')"
  using visit_validates_operation_def
      [of "\<lparr>kind = OtherOperation ''Combine'', label = ''c'', num_outputs = 1,
            is_partitionable = False, cache_coder = Some (Coder ''k''), attr_paths = []\<rparr>"
          "\<lparr>make_cache_entry_key = id, value_node_len = (\<lambda>_. 2)\<rparr>"
          "\<lparr>dataset_keys = [''a''], cache_dict = None, tensor_keys_to_paths = Map.empty\<rparr>"
          "[]" "[]"]
    visit_validates_operation_def
      [of "\<lparr>kind = OtherOperation ''Combine'', label = ''c'', num_outputs = 2,
            is_partitionable = True, cache_coder = Some (Coder ''k''), attr_paths = []\<rparr>"
          "\<lparr>make_cache_entry_key = id, value_node_len = (\<lambda>_. 2)\<rparr>"
          "\<lparr>dataset_keys = [''a''], cache_dict = None, tensor_keys_to_paths = Map.empty\<rparr>"
          "[]" "[]"]
  by simp

lemma outputs_one: "num_outputs d = 1 \<Longrightarrow> outputs d ins = [ValueNode (OperationNode d ins) 0]"
  by (simp add: outputs_def)

lemma unpack1_single [simp]: "unpack1 [x] = Inr x"
  by (simp add: unpack1_def)

lemma map_of_fold_update:
  "map_of (fold (\<lambda>k. AList.update k (f k)) ks acc) k =
     (if k \<in> set ks then Some (f k) else map_of acc k)"
  by (induction ks arbitrary: acc) (auto simp: update_conv')

lemma keys_fold_update:
  "fst ` set (fold (\<lambda>k. AList.update k (f k)) ks acc) = set ks \<union> fst ` set acc"
  by (induction ks arbitrary: acc) (auto simp: dom_update)

lemma distinct_fold_update:
  "distinct (map fst acc) \<Longrightarrow> distinct (map fst (fold (\<lambda>k. AList.update k (f k)) ks acc))"
  by (induction ks arbitrary: acc) (auto simp: distinct_update)

lemma apply_savedmodel_partitions_fold:
  assumes "kind d = ApplySavedModel dk 0" and "num_outputs d = 1"
  shows "apply_savedmodel_partitions d flat ks acc =
     Inr (fold (\<lambda>k. AList.update k
            (ValueNode (OperationNode
               (d\<lparr>kind := ApplySavedModel (Some k) 0, label := bracket (label d) k\<rparr>)
               [flat]) 0)) ks acc)"
  using assms
  by (induction ks arbitrary: acc)
    (simp_all add: replace_dataset_key_label_def outputs_one)

text \<open>One dataset key of the loop, in closed form.\<close>

lemma apply_on_partition_hit:
  assumes "cache_coder d = Some c" and "cache_dict vis = Some cd"
    and "(case cd key of None \<Rightarrow> Map.empty | Some entries \<Rightarrow> entries) cek \<noteq> None"
  shows "apply_on_partition vis d fine cek key con =
     Inr (ValueNode (OperationNode (decode_cache key cek (label d) c) []) 0, con)"
  using assms
  by (auto simp: apply_on_partition_def cache_hit_def outputs_one decode_cache_def)

lemma apply_on_partition_miss:
  assumes "cache_coder d = Some c" and "cache_dict vis = Some cd"
    and "(case cd key of None \<Rightarrow> Map.empty | Some entries \<Rightarrow> entries) cek = None"
    and "map_of fine key = Some value_node" and "num_outputs d = 1"
  shows "apply_on_partition vis d fine cek key con =
     Inr (ValueNode (OperationNode (d\<lparr>label := bracket (label d) key\<rparr>) [value_node]) 0,
          AList.update (key, cek)
            (ValueNode (OperationNode
               (encode_cache c (bracket (bracket ''EncodeCache'' (label d)) key))
               [ValueNode (OperationNode (d\<lparr>label := bracket (label d) key\<rparr>) [value_node]) 0]) 0)
            con)"
  using assms
  by (auto simp: apply_on_partition_def cache_hit_def outputs_one encode_cache_def)

lemma apply_on_partition_no_coder:
  assumes "cache_coder d = None"
    and "map_of fine key = Some value_node" and "num_outputs d = 1"
  shows "apply_on_partition vis d fine cek key con =
     Inr (ValueNode (OperationNode (d\<lparr>label := bracket (label d) key\<rparr>) [value_node]) 0, con)"
  using assms
  by (auto simp: apply_on_partition_def cache_hit_def outputs_one)

text \<open>
  The loop succeeds when every dataset key has a fine-grained input; it leaves
  \<open>cache_output_nodes\<close> alone outside the pairs it writes, and the output of a key is the
  one its own iteration computed.
\<close>

lemma apply_on_partition_total:
  assumes "cache_coder d = None \<or> cache_dict vis \<noteq> None"
    and "map_of fine key \<noteq> None" and "num_outputs d = 1"
  shows "\<exists>out con'. apply_on_partition vis d fine cek key con = Inr (out, con') \<and>
           (\<forall>k. k \<noteq> key \<longrightarrow> map_of con' (k, cek) = map_of con (k, cek))"
proof (cases "cache_coder d")
  case None
  with assms show ?thesis by (auto simp: apply_on_partition_no_coder)
next
  case (Some c)
  with assms obtain cd where cd: "cache_dict vis = Some cd" by auto
  from assms obtain vn where vn: "map_of fine key = Some vn" by auto
  show ?thesis
  proof (cases "(case cd key of None \<Rightarrow> Map.empty | Some entries \<Rightarrow> entries) cek")
    case None
    show ?thesis
      by (simp add: apply_on_partition_miss [OF Some cd None vn assms(3)] update_conv')
  next
    case (Some p)
    then have "(case cd key of None \<Rightarrow> Map.empty | Some entries \<Rightarrow> entries) cek \<noteq> None"
      by simp
    from apply_on_partition_hit [OF \<open>cache_coder d = Some c\<close> cd this]
    show ?thesis by simp
  qed
qed

lemma apply_on_partition_deterministic_output:
  "apply_on_partition vis d fine cek key con = Inr (out, con') \<Longrightarrow>
   apply_on_partition vis d fine cek key con2 = Inr (out2, con2') \<Longrightarrow> out2 = out"
  by (auto simp: apply_on_partition_def split: sum.splits option.splits)




lemmas example_defs =
  example_library_def example_visitor_def example_cache_def accumulate_key_def
  accumulate_path_def create_saved_model_def apply_saved_model_op_def apply_saved_model_def
  extract_op_def extract_x_def accumulate_op_def accumulate_def merge_op_def merge_def
  merge_two_def partition_node_def fine_view_def flat_view_def uncached_visitor_def
  unknown_path_visitor_def

lemmas visit_defs =
  visit_def validate_operation_def_def is_apply_savedmodel_phase0_def
  visit_apply_savedmodel_operation_def visit_partitionable_operation_def
  partitionable_fine_grained_views_def apply_operation_on_fine_grained_view_def
  apply_on_partition_def cache_hit_def make_next_hashed_path_def hash_paths_def class_name_def
  replace_dataset_key_label_def flatten_cache_def new_OptimizationView_def truthy_def
  outputs_def unpack1_def bracket_def decode_cache_def encode_cache_def flatten_def
  Option.is_none_def validate_value_def








text \<open>
  C6. Visiting an \<open>ApplySavedModel\<close> operation of phase 0 that has one output, above one
  upstream view whose fine-grained view is \<open>None\<close> or empty, returns exactly one view:
  its flattened view applies the operation to the upstream flattened view, its
  fine-grained view holds for exactly the dataset keys the operation with that dataset key
  and relabeled \<open>label[key]\<close> applied to the upstream flattened view, its hashed path is
  \<open>APPLY_SAVEDMODEL\<close> and it does not prefer the fine-grained view. Above an upstream view
  with a non-empty fine-grained view the visit fails with a \<open>ValueError\<close>.
\<close>

theorem visit_apply_savedmodel_phase0:
  assumes "kind d = ApplySavedModel dk 0"
    and "cache_coder d \<noteq> None \<longrightarrow> is_partitionable d"
    and "num_outputs d = 1"
  shows
    "(\<not> truthy (fine_grained_view up) \<longrightarrow>
        (\<exists>fine.
           visit lib vis d [up] con =
             Inr ([\<lparr>prefer_fine_grained_view = False,
                    flattened_view = ValueNode (OperationNode d [flattened_view up]) 0,
                    fine_grained_view = Some fine,
                    hashed_path = Some ''APPLY_SAVEDMODEL''\<rparr>], con) \<and>
           distinct (map fst fine) \<and>
           set (map fst fine) = set (dataset_keys vis) \<and>
           (\<forall>key \<in> set (dataset_keys vis).
              map_of fine key =
                Some (ValueNode
                  (OperationNode
                     (d\<lparr>kind := ApplySavedModel (Some key) 0, label := bracket (label d) key\<rparr>)
                     [flattened_view up]) 0)))) \<and>
     (truthy (fine_grained_view up) \<longrightarrow>
        visit lib vis d [up] con =
          Inl (ValueError ''Was not expecting a fine_grained_view input for ApplySavedModel''))"
proof (intro conjI impI)
  have v: "validate_operation_def d = Inr ()"
    using assms by (auto simp: validate_operation_def_def)
  have p0: "is_apply_savedmodel_phase0 d"
    using assms by (simp add: is_apply_savedmodel_phase0_def)
  {
    assume "truthy (fine_grained_view up)"
    then show "visit lib vis d [up] con =
        Inl (ValueError ''Was not expecting a fine_grained_view input for ApplySavedModel'')"
      using v p0 by (simp add: visit_def visit_apply_savedmodel_operation_def)
  }
  assume nt: "\<not> truthy (fine_grained_view up)"
  let ?node = "\<lambda>k. ValueNode (OperationNode
      (d\<lparr>kind := ApplySavedModel (Some k) 0, label := bracket (label d) k\<rparr>)
      [flattened_view up]) 0"
  let ?fine = "fold (\<lambda>k. AList.update k (?node k)) (dataset_keys vis) []"
  have "visit lib vis d [up] con =
      Inr ([\<lparr>prefer_fine_grained_view = False,
             flattened_view = ValueNode (OperationNode d [flattened_view up]) 0,
             fine_grained_view = Some ?fine,
             hashed_path = Some ''APPLY_SAVEDMODEL''\<rparr>], con)"
    using v p0 nt assms
    by (simp add: visit_def visit_apply_savedmodel_operation_def
        apply_savedmodel_partitions_fold [OF assms(1,3)] outputs_one new_OptimizationView_def)
  moreover have "distinct (map fst ?fine)"
    by (rule distinct_fold_update) simp
  moreover have "set (map fst ?fine) = set (dataset_keys vis)"
    using keys_fold_update [of ?node "dataset_keys vis" "[]"]
    by simp
  moreover have "\<forall>key \<in> set (dataset_keys vis).
      map_of ?fine key =
        Some (ValueNode
          (OperationNode
             (d\<lparr>kind := ApplySavedModel (Some key) 0, label := bracket (label d) key\<rparr>)
             [flattened_view up]) 0)"
    by (simp add: map_of_fold_update)
  ultimately show "\<exists>fine.
       visit lib vis d [up] con =
         Inr ([\<lparr>prefer_fine_grained_view = False,
                flattened_view = ValueNode (OperationNode d [flattened_view up]) 0,
                fine_grained_view = Some fine,
                hashed_path = Some ''APPLY_SAVEDMODEL''\<rparr>], con) \<and>
       distinct (map fst fine) \<and>
       set (map fst fine) = set (dataset_keys vis) \<and>
       (\<forall>key \<in> set (dataset_keys vis).
          map_of fine key =
            Some (ValueNode
              (OperationNode
                 (d\<lparr>kind := ApplySavedModel (Some key) 0, label := bracket (label d) key\<rparr>)
                 [flattened_view up]) 0))"
    by blast
qed

theorem visit_apply_savedmodel_phase0_witness:
  "visit example_library example_visitor apply_saved_model_op [flat_view] [] =
     Inr ([\<lparr>prefer_fine_grained_view = False,
            flattened_view = ValueNode apply_saved_model 0,
            fine_grained_view = Some
              [(''a'', ValueNode (OperationNode
                  (apply_saved_model_op
                     \<lparr>kind := ApplySavedModel (Some ''a'') 0, label := ''ApplySavedModel[0][a]''\<rparr>)
                  [ValueNode create_saved_model 0]) 0),
               (''b'', ValueNode (OperationNode
                  (apply_saved_model_op
                     \<lparr>kind := ApplySavedModel (Some ''b'') 0, label := ''ApplySavedModel[0][b]''\<rparr>)
                  [ValueNode create_saved_model 0]) 0)],
            hashed_path = Some ''APPLY_SAVEDMODEL''\<rparr>], []) \<and>
   visit example_library example_visitor apply_saved_model_op [fine_view False [''a'']] [] =
     Inl (ValueError ''Was not expecting a fine_grained_view input for ApplySavedModel'')"
  using visit_apply_savedmodel_phase0
      [of apply_saved_model_op None flat_view example_library example_visitor "[]"]
    visit_apply_savedmodel_phase0
      [of apply_saved_model_op None "fine_view False [''a'']" example_library example_visitor
          "[]"]
  by (simp add: example_defs visit_defs)

subsection \<open>Traversal\<close>

lemma set_update_subset: "set (AList.update k v al) \<subseteq> insert (k, v) (set al)"
  by (induction al) auto

lemma set_update_all_subset: "set (update_all kvs al) \<subseteq> set kvs \<union> set al"
proof (induction kvs arbitrary: al)
  case Nil
  then show ?case by simp
next
  case (Cons kv kvs)
  obtain k v where kv: "kv = (k, v)" by (cases kv)
  have "set (update_all kvs (AList.update k v al)) \<subseteq> set kvs \<union> set (AList.update k v al)"
    by (rule Cons.IH)
  also have "\<dots> \<subseteq> set kvs \<union> insert (k, v) (set al)"
    using set_update_subset [of k v al] by auto
  finally show ?case by (auto simp: kv)
qed

lemma sequence_Inr_length: "sequence xs = Inr ys \<Longrightarrow> length ys = length xs"
  by (induction xs arbitrary: ys) (auto split: sum.splits)

text \<open>
  An invariant of the traversal: a relation between value nodes and their views that
  every visit establishes for its outputs from the same relation on its inputs, together
  with a property of \<open>cache_output_nodes\<close> that every visit keeps, holds of the memo
  table and of every result.
\<close>

lemma traversal_invariant:
  assumes step: "\<And>d ins input_values con views con'.
      list_all2 Q ins input_values \<Longrightarrow> R con \<Longrightarrow>
      visit lib vis d input_values con = Inr (views, con') \<Longrightarrow>
      (\<forall>(n, v) \<in> set (zip (outputs d ins) views). Q n v) \<and> R con'"
  shows "visit_value_node lib vis n st = Inr (v, st') \<Longrightarrow>
           (\<forall>(n, v) \<in> set (cached_value_nodes_values st). Q n v) \<Longrightarrow>
           R (cache_output_nodes st) \<Longrightarrow>
           (\<forall>(n, v) \<in> set (cached_value_nodes_values st'). Q n v) \<and>
           R (cache_output_nodes st') \<and> Q n v"
    and "visit_operation lib vis opn st = Inr st' \<Longrightarrow>
           (\<forall>(n, v) \<in> set (cached_value_nodes_values st). Q n v) \<Longrightarrow>
           R (cache_output_nodes st) \<Longrightarrow>
           (\<forall>(n, v) \<in> set (cached_value_nodes_values st'). Q n v) \<and>
           R (cache_output_nodes st')"
    and "visit_inputs lib vis ns st = Inr (vs, st') \<Longrightarrow>
           (\<forall>(n, v) \<in> set (cached_value_nodes_values st). Q n v) \<Longrightarrow>
           R (cache_output_nodes st) \<Longrightarrow>
           (\<forall>(n, v) \<in> set (cached_value_nodes_values st'). Q n v) \<and>
           R (cache_output_nodes st') \<and> list_all2 Q ns vs"
  using step
proof (induction lib vis n st and lib vis opn st and lib vis ns st
    arbitrary: v st' and st' and vs st'
    rule: visit_value_node_visit_operation_visit_inputs.induct)
  case (1 lib vis operation i st)
  show ?case
  proof (cases "map_of (cached_value_nodes_values st) (ValueNode operation i)")
    case (Some view0)
    with "1.prems"(1) have "v = view0" "st' = st" by auto
    moreover from Some have "(ValueNode operation i, view0) \<in> set (cached_value_nodes_values st)"
      by (rule map_of_SomeD)
    ultimately show ?thesis using "1.prems"(2,3) by auto
  next
    case None
    with "1.prems"(1) obtain st1 where
      op: "visit_operation lib vis operation st = Inr st1" and
      look: "map_of (cached_value_nodes_values st1) (ValueNode operation i) = Some v" and
      st': "st' = st1"
      by (auto split: sum.splits option.splits)
    from "1.IH" [OF None op "1.prems"(2,3,4)]
    have inv: "(\<forall>(n, v) \<in> set (cached_value_nodes_values st1). Q n v) \<and>
        R (cache_output_nodes st1)" .
    from look have "(ValueNode operation i, v) \<in> set (cached_value_nodes_values st1)"
      by (rule map_of_SomeD)
    with inv st' show ?thesis by auto
  qed
next
  case (2 lib vis d ins st)
  from "2.prems"(1) obtain input_values st1 views con checked where
    ins: "visit_inputs lib vis ins st = Inr (input_values, st1)" and
    vis: "visit lib vis d input_values (cache_output_nodes st1) = Inr (views, con)" and
    val: "sequence (map (validate_value vis) views) = Inr checked" and
    st': "st' = \<lparr>cached_value_nodes_values =
                   update_all (zip (outputs d ins) views) (cached_value_nodes_values st1),
                 cache_output_nodes = con\<rparr>"
    by (auto split: sum.splits prod.splits)
  from "2.IH" [OF ins "2.prems"(2,3,4)]
  have inv1: "\<forall>(n, v) \<in> set (cached_value_nodes_values st1). Q n v"
    and r1: "R (cache_output_nodes st1)" and q: "list_all2 Q ins input_values"
    by auto
  from "2.prems"(4) [OF q r1 vis]
  have outs: "\<forall>(n, v) \<in> set (zip (outputs d ins) views). Q n v" and r: "R con"
    by auto
  have "set (update_all (zip (outputs d ins) views) (cached_value_nodes_values st1))
      \<subseteq> set (zip (outputs d ins) views) \<union> set (cached_value_nodes_values st1)"
    by (rule set_update_all_subset)
  with inv1 outs r st' show ?case by auto
next
  case (3 lib vis st)
  then show ?case by auto
next
  case (4 lib vis v0 vs0 st)
  from "4.prems"(1) obtain view0 st1 views st2 where
    hd: "visit_value_node lib vis v0 st = Inr (view0, st1)" and
    tl: "visit_inputs lib vis vs0 st1 = Inr (views, st2)" and
    res: "vs = view0 # views" "st' = st2"
    by (auto split: sum.splits prod.splits)
  from "4.IH"(1) [OF hd "4.prems"(2,3,4)]
  have inv1: "\<forall>(n, v) \<in> set (cached_value_nodes_values st1). Q n v"
    and r1: "R (cache_output_nodes st1)" and q: "Q v0 view0"
    by auto
  from "4.IH"(2) [OF hd _ tl inv1 r1 "4.prems"(4)] res q show ?case by auto
qed

lemma apply_savedmodel_partitions_keys:
  "apply_savedmodel_partitions d flat ks acc = Inr fine \<Longrightarrow>
   fst ` set fine = set ks \<union> fst ` set acc"
proof (induction ks arbitrary: acc)
  case Nil
  then show ?case by simp
next
  case (Cons k ks)
  from Cons.prems obtain v where
    "apply_savedmodel_partitions d flat ks (AList.update k v acc) = Inr fine"
    by (auto split: sum.splits)
  from Cons.IH [OF this] show ?case by (simp add: dom_update)
qed

lemma apply_on_partitions_keys:
  "apply_on_partitions vis d fine cek ks result con = Inr (result', con') \<Longrightarrow>
   fst ` set result' = set ks \<union> fst ` set result"
proof (induction ks arbitrary: result con)
  case Nil
  then show ?case by simp
next
  case (Cons k ks)
  from Cons.prems obtain out con1 where
    "apply_on_partitions vis d fine cek ks (AList.update k out result) con1 = Inr (result', con')"
    by (auto split: sum.splits)
  from Cons.IH [OF this] show ?case by (simp add: dom_update)
qed

lemma new_OptimizationView_Inr:
  "new_OptimizationView p flat fine path = Inr v \<Longrightarrow>
   v = \<lparr>prefer_fine_grained_view = p, flattened_view = flat, fine_grained_view = fine,
        hashed_path = path\<rparr> \<and> (p \<longrightarrow> truthy fine)"
  by (auto simp: new_OptimizationView_def split: if_splits)

lemma sequence_map_Inr:
  "sequence (map f xs) = Inr ys \<Longrightarrow> list_all2 (\<lambda>x y. f x = Inr y) xs ys"
  by (induction xs arbitrary: ys) (auto split: sum.splits)

lemma savedmodel_view_invariant:
  assumes "visit_apply_savedmodel_operation vis d input_values = Inr views"
  shows "\<forall>v \<in> set views. view_invariant vis v"
  using assms
  by (auto simp: visit_apply_savedmodel_operation_def view_invariant_def
      split: sum.splits if_splits
      dest!: new_OptimizationView_Inr apply_savedmodel_partitions_keys)

lemma partitionable_fine_keys:
  assumes "partitionable_fine_grained_views lib vis d up path con = Inr (fines, con')"
  shows "\<forall>fine \<in> set fines. case fine of None \<Rightarrow> True
           | Some items \<Rightarrow> set (map fst items) = set (dataset_keys vis)"
proof (cases "truthy (fine_grained_view up)")
  case False
  with assms have "fines = replicate (num_outputs d) None"
    by (auto simp: partitionable_fine_grained_views_def truthy_def split: option.splits if_splits)
  then show ?thesis by auto
next
  case True
  with assms obtain items p result where
    "apply_on_partitions vis d items p (dataset_keys vis) [] con = Inr (result, con')"
    and "fines = [Some result]"
    by (auto simp: partitionable_fine_grained_views_def truthy_def
        apply_operation_on_fine_grained_view_def split: option.splits if_splits sum.splits)
  then show ?thesis
    using apply_on_partitions_keys [of vis d items p "dataset_keys vis" "[]" con result con']
    by auto
qed

lemma partitionable_view_invariant:
  assumes "visit_partitionable_operation lib vis d input_values con = Inr (views, con')"
  shows "\<forall>v \<in> set views. view_invariant vis v"
proof -
  obtain up where up: "unpack1 input_values = Inr up"
    using assms
    by (cases "unpack1 input_values") (simp_all add: visit_partitionable_operation_def)
  define pf where "pf = (prefer_fine_grained_view up \<or>
      (truthy (fine_grained_view up) \<and> cache_coder d \<noteq> None))"
  obtain path where
    path: "make_next_hashed_path vis (map hashed_path input_values) d = Inr path"
    using assms up
    by (cases "make_next_hashed_path vis (map hashed_path input_values) d")
      (simp_all add: visit_partitionable_operation_def)
  obtain fines con1 where
    fines: "partitionable_fine_grained_views lib vis d up path con = Inr (fines, con1)"
    using assms up path
    by (cases "partitionable_fine_grained_views lib vis d up path con")
      (auto simp: visit_partitionable_operation_def)
  have views: "sequence (map (\<lambda>(flat, fine). new_OptimizationView pf flat fine path)
      (zip (outputs d [flattened_view up]) fines)) = Inr views"
    using assms
    by (simp add: visit_partitionable_operation_def up path fines pf_def Let_def
        split: if_splits sum.splits)
  from sequence_map_Inr [OF views]
  have all: "list_all2 (\<lambda>x v. (case x of (flat, fine) \<Rightarrow>
      new_OptimizationView pf flat fine path) = Inr v)
      (zip (outputs d [flattened_view up]) fines) views" .
  show ?thesis
  proof
    fix v assume "v \<in> set views"
    then obtain i where i: "i < length views" "views ! i = v"
      by (auto simp: in_set_conv_nth)
    from all have len: "length (zip (outputs d [flattened_view up]) fines) = length views"
      by (rule list_all2_lengthD)
    obtain flat fine where zi: "zip (outputs d [flattened_view up]) fines ! i = (flat, fine)"
      by (cases "zip (outputs d [flattened_view up]) fines ! i")
    from list_all2_nthD2 [OF all i(1)] zi i(2)
    have new: "new_OptimizationView pf flat fine path = Inr v" by simp
    from zi i(1) len have "(flat, fine) \<in> set (zip (outputs d [flattened_view up]) fines)"
      by (metis nth_mem)
    then have "fine \<in> set fines" by (rule set_zip_rightD)
    with partitionable_fine_keys [OF fines]
    have keys: "case fine of None \<Rightarrow> True
        | Some items \<Rightarrow> set (map fst items) = set (dataset_keys vis)" by blast
    from new_OptimizationView_Inr [OF new] keys show "view_invariant vis v"
      by (auto simp: view_invariant_def)
  qed
qed

lemma other_views:
  assumes "sequence (map (\<lambda>flat. new_OptimizationView False flat None None) flats) = Inr views"
  shows "views = map (\<lambda>flat. \<lparr>prefer_fine_grained_view = False, flattened_view = flat,
                         fine_grained_view = None, hashed_path = None\<rparr>) flats"
  using assms by (induction flats arbitrary: views)
    (auto simp: new_OptimizationView_def split: sum.splits)

lemma visit_view_invariant:
  assumes "visit lib vis d input_values con = Inr (views, con')"
  shows "\<forall>v \<in> set views. view_invariant vis v"
proof -
  consider
    (saved) "visit_apply_savedmodel_operation vis d input_values = Inr views"
  | (part) "visit_partitionable_operation lib vis d input_values con = Inr (views, con')"
  | (other) flats where
      "sequence (map (\<lambda>flat. new_OptimizationView False flat None None) flats) = Inr views"
    using assms by (auto simp: visit_def split: sum.splits if_splits)
  then show ?thesis
  proof cases
    case saved
    then show ?thesis by (rule savedmodel_view_invariant)
  next
    case part
    then show ?thesis by (rule partitionable_view_invariant)
  next
    case other
    from other_views [OF this] show ?thesis by (auto simp: view_invariant_def)
  qed
qed

lemma visit_without_cache_dict:
  assumes "cache_dict vis = None" and "visit lib vis d input_values con = Inr (views, con')"
  shows "con' = con"
  using assms by (auto simp: visit_def split: sum.splits if_splits)

text \<open>
  C4. Every view the traversal computes from an empty memo table, and more generally
  every view a visit returns, satisfies the invariant: a view that prefers its
  fine-grained view has a non-empty one, and the keys of a fine-grained view are exactly
  the dataset keys. Constructing a view that prefers a fine-grained view it does not have
  fails with the \<open>ValueError\<close> of \<open>__init__\<close>, and a view whose non-empty fine-grained view
  has other keys fails \<open>validate_value\<close>, which makes the traverser's validation of the
  visit's results fail as a whole.
\<close>

theorem optimization_view_invariant:
  "(\<forall>view st.
      visit_value_node lib vis root
        \<lparr>cached_value_nodes_values = [], cache_output_nodes = []\<rparr> = Inr (view, st) \<longrightarrow>
      view_invariant vis view \<and>
      (\<forall>(n, v) \<in> set (cached_value_nodes_values st). view_invariant vis v)) \<and>
   (\<forall>views con'. visit lib vis d input_values con = Inr (views, con') \<longrightarrow>
      (\<forall>v \<in> set views. view_invariant vis v)) \<and>
   (prefer \<and> \<not> truthy fine \<longrightarrow>
      new_OptimizationView prefer flat fine path =
        Inl (ValueError ''Cannot prefer fine_grained_view when one is not provided'')) \<and>
   (fine_grained_view v = Some items \<and> items \<noteq> [] \<and>
    set (map fst items) \<noteq> set (dataset_keys vis) \<longrightarrow>
      validate_value vis v = Inl AssertionError \<and>
      (\<forall>rest. sequence (map (validate_value vis) (v # rest)) = Inl AssertionError))"
proof -
  have step: "\<And>d ins input_values con views con'.
      list_all2 (\<lambda>n. view_invariant vis) ins input_values \<Longrightarrow> True \<Longrightarrow>
      visit lib vis d input_values con = Inr (views, con') \<Longrightarrow>
      (\<forall>(n, v) \<in> set (zip (outputs d ins) views). view_invariant vis v) \<and> True"
    using visit_view_invariant by (auto dest: set_zip_rightD)
  have traversal: "\<forall>view st.
      visit_value_node lib vis root
        \<lparr>cached_value_nodes_values = [], cache_output_nodes = []\<rparr> = Inr (view, st) \<longrightarrow>
      view_invariant vis view \<and>
      (\<forall>(n, v) \<in> set (cached_value_nodes_values st). view_invariant vis v)"
  proof (intro allI impI)
    fix view st
    assume "visit_value_node lib vis root
        \<lparr>cached_value_nodes_values = [], cache_output_nodes = []\<rparr> = Inr (view, st)"
    from traversal_invariant(1) [where Q = "\<lambda>n. view_invariant vis" and R = "\<lambda>con. True",
        OF step this]
    show "view_invariant vis view \<and>
      (\<forall>(n, v) \<in> set (cached_value_nodes_values st). view_invariant vis v)"
      by simp
  qed
  have visits: "\<forall>views con'. visit lib vis d input_values con = Inr (views, con') \<longrightarrow>
      (\<forall>v \<in> set views. view_invariant vis v)"
    using visit_view_invariant by blast
  have init: "prefer \<and> \<not> truthy fine \<longrightarrow>
      new_OptimizationView prefer flat fine path =
        Inl (ValueError ''Cannot prefer fine_grained_view when one is not provided'')"
    by (simp add: new_OptimizationView_def)
  have validation: "fine_grained_view v = Some items \<and> items \<noteq> [] \<and>
    set (map fst items) \<noteq> set (dataset_keys vis) \<longrightarrow>
      validate_value vis v = Inl AssertionError \<and>
      (\<forall>rest. sequence (map (validate_value vis) (v # rest)) = Inl AssertionError)"
    by (simp add: validate_value_def)
  from traversal visits init validation show ?thesis by blast
qed

theorem optimization_view_invariant_witness:
  "(\<exists>view st.
      visit_value_node example_library uncached_visitor (ValueNode merge 0)
        \<lparr>cached_value_nodes_values = [], cache_output_nodes = []\<rparr> = Inr (view, st) \<and>
      view_invariant uncached_visitor view \<and>
      map (view_invariant uncached_visitor \<circ> snd) (cached_value_nodes_values st) =
        [True, True, True, True, True]) \<and>
   new_OptimizationView True (ValueNode merge 0) None None =
     Inl (ValueError ''Cannot prefer fine_grained_view when one is not provided'') \<and>
   validate_value uncached_visitor (fine_view False [''a'']) = Inl AssertionError"
  using optimization_view_invariant
      [of example_library uncached_visitor "ValueNode merge 0" merge_op "[]" "[]" True None
          "ValueNode merge 0" None "fine_view False [''a'']" "[(''a'', partition_node ''a'')]"]
  by (simp add: example_defs visit_defs view_invariant_def)

lemma traversal_without_cache_dict:
  assumes "cache_dict vis = None"
    and "visit_value_node lib vis root
           \<lparr>cached_value_nodes_values = [], cache_output_nodes = []\<rparr> = Inr (view, st)"
  shows "cache_output_nodes st = []"
proof -
  have step: "\<And>d ins input_values con views con'.
      list_all2 (\<lambda>n v. True) ins input_values \<Longrightarrow> con = [] \<Longrightarrow>
      visit lib vis d input_values con = Inr (views, con') \<Longrightarrow>
      (\<forall>(n, v) \<in> set (zip (outputs d ins) views). True) \<and> con' = []"
    using visit_without_cache_dict [OF assms(1)] by auto
  from traversal_invariant(1) [where Q = "\<lambda>n v. True" and R = "\<lambda>con. con = []",
      OF step assms(2)]
  show ?thesis by simp
qed

text \<open>
  C8. The cache-output mapping \<open>_perform_cache_optimization\<close> returns is \<open>None\<close> exactly
  when the cache dictionary is \<open>None\<close>. Without a cache dictionary the traversal records
  no cache-output node at all, so the assertion before returning \<open>None\<close> holds and the
  result is the flattened view of the root together with \<open>None\<close>.
\<close>

theorem cache_output_mapping_none_iff:
  "(\<forall>optimized con.
      perform_cache_optimization lib root keys paths cd = Inr (optimized, con) \<longrightarrow>
      (con = None \<longleftrightarrow> cd = None)) \<and>
   (cd = None \<longrightarrow>
      (\<forall>view st.
         visit_value_node lib
           \<lparr>dataset_keys = sort (case keys of None \<Rightarrow> [] | Some ks \<Rightarrow> ks),
            cache_dict = cd, tensor_keys_to_paths = paths\<rparr> root
           \<lparr>cached_value_nodes_values = [], cache_output_nodes = []\<rparr> = Inr (view, st) \<longrightarrow>
         cache_output_nodes st = [] \<and>
         perform_cache_optimization lib root keys paths cd = Inr (flattened_view view, None)))"
proof (intro conjI allI impI)
  fix optimized con
  assume "perform_cache_optimization lib root keys paths cd = Inr (optimized, con)"
  then show "con = None \<longleftrightarrow> cd = None"
    by (auto simp: perform_cache_optimization_def Let_def
        split: sum.splits option.splits if_splits)
next
  fix view st
  assume none: "cd = None"
    and run: "visit_value_node lib
           \<lparr>dataset_keys = sort (case keys of None \<Rightarrow> [] | Some ks \<Rightarrow> ks),
            cache_dict = cd, tensor_keys_to_paths = paths\<rparr> root
           \<lparr>cached_value_nodes_values = [], cache_output_nodes = []\<rparr> = Inr (view, st)"
  from none have "cache_dict
      \<lparr>dataset_keys = sort (case keys of None \<Rightarrow> [] | Some ks \<Rightarrow> ks),
       cache_dict = cd, tensor_keys_to_paths = paths\<rparr> = None" by simp
  from traversal_without_cache_dict [OF this run]
  show empty: "cache_output_nodes st = []" .
  from run none empty
  show "perform_cache_optimization lib root keys paths cd = Inr (flattened_view view, None)"
    by (simp add: perform_cache_optimization_def)
qed

theorem cache_output_mapping_none_iff_witness:
  "perform_cache_optimization example_library (ValueNode merge 0) (Some [''b'', ''a''])
     [''x'' \<mapsto> Some ''px''] None = Inr (ValueNode merge 0, None) \<and>
   (\<exists>optimized con.
      perform_cache_optimization example_library (ValueNode merge 0) (Some [''b'', ''a''])
        [''x'' \<mapsto> Some ''px''] (Some Map.empty) = Inr (optimized, Some con) \<and>
      map fst con =
        [(''a'', ''v1-min-'' @ sha1 (sha1 ''APPLY_SAVEDMODELExtractFromDictpx'' @
            ''CacheableCombineAccumulatecombiner'')),
         (''b'', ''v1-min-'' @ sha1 (sha1 ''APPLY_SAVEDMODELExtractFromDictpx'' @
            ''CacheableCombineAccumulatecombiner''))])"
  using cache_output_mapping_none_iff
      [of example_library "ValueNode merge 0" "Some [''b'', ''a'']" "[''x'' \<mapsto> Some ''px'']"
          None]
    cache_output_mapping_none_iff
      [of example_library "ValueNode merge 0" "Some [''b'', ''a'']" "[''x'' \<mapsto> Some ''px'']"
          "Some Map.empty"]
  by (simp add: perform_cache_optimization_def example_defs visit_defs)

lemma unpack1_outputs:
  assumes "unpack1 (outputs d ins) = Inr y"
  shows "num_outputs d = 1 \<and> y = ValueNode (OperationNode d ins) 0"
proof -
  from assms have "length (outputs d ins) = 1"
    by (auto simp: unpack1_def split: list.splits)
  then have one: "num_outputs d = 1" by (simp add: outputs_def)
  with assms show ?thesis by (simp add: outputs_def unpack1_def)
qed

lemma unpack1_Inr: "unpack1 xs = Inr x \<Longrightarrow> xs = [x]"
  by (auto simp: unpack1_def split: list.splits)

lemma plain_views:
  assumes "sequence (map (\<lambda>flat. new_OptimizationView False flat fine path) flats) = Inr views"
  shows "views = map (\<lambda>flat. \<lparr>prefer_fine_grained_view = False, flattened_view = flat,
                         fine_grained_view = fine, hashed_path = path\<rparr>) flats"
  using assms by (induction flats arbitrary: views)
    (auto simp: new_OptimizationView_def split: sum.splits)

text \<open>
  Without dataset keys a visit maps inputs that are their own flattened views, carry no
  non-empty fine-grained view and prefer none to outputs of the same kind, and writes no
  cache-output node.
\<close>

lemma visit_without_dataset_keys:
  assumes keys: "dataset_keys vis = []"
    and ins: "list_all2 (\<lambda>n v. flattened_view v = n \<and> \<not> truthy (fine_grained_view v) \<and>
                \<not> prefer_fine_grained_view v) ins input_values"
    and run: "visit lib vis d input_values con = Inr (views, con')"
  shows "(\<forall>(n, v) \<in> set (zip (outputs d ins) views).
            flattened_view v = n \<and> \<not> truthy (fine_grained_view v) \<and>
            \<not> prefer_fine_grained_view v) \<and> con' = con"
proof -
  have flats: "map flattened_view input_values = ins"
    using ins by (induction rule: list_all2_induct) auto
  have quiet: "\<not> list_ex (\<lambda>v. truthy (fine_grained_view v) \<and> prefer_fine_grained_view v)
      input_values"
    using ins by (induction rule: list_all2_induct) auto
  consider
    (saved) "visit_apply_savedmodel_operation vis d input_values = Inr views" "con' = con"
  | (part) "visit_partitionable_operation lib vis d input_values con = Inr (views, con')"
  | (other)
      "sequence (map (\<lambda>flat. new_OptimizationView False flat None None)
         (outputs d (map flattened_view input_values))) = Inr views" "con' = con"
    using run quiet by (auto simp: visit_def split: sum.splits if_splits)
  then show ?thesis
  proof cases
    case saved
    from saved(1) obtain up flat where
      up: "unpack1 input_values = Inr up" and
      flat: "unpack1 (outputs d [flattened_view up]) = Inr flat" and
      views: "views = [\<lparr>prefer_fine_grained_view = False, flattened_view = flat,
                        fine_grained_view = Some [],
                        hashed_path = Some ''APPLY_SAVEDMODEL''\<rparr>]"
      by (auto simp: visit_apply_savedmodel_operation_def keys new_OptimizationView_def
          split: sum.splits if_splits)
    from unpack1_Inr [OF up] flats have "ins = [flattened_view up]" by auto
    with unpack1_outputs [OF flat] views saved(2) show ?thesis
      by (simp add: outputs_def truthy_def)
  next
    case part
    obtain up where up: "unpack1 input_values = Inr up"
      using part
      by (cases "unpack1 input_values") (simp_all add: visit_partitionable_operation_def)
    from unpack1_Inr [OF up] have iv: "input_values = [up]" .
    with ins flats have upq: "\<not> truthy (fine_grained_view up)" "\<not> prefer_fine_grained_view up"
      and insq: "ins = [flattened_view up]" by auto
    obtain path where
      path: "make_next_hashed_path vis (map hashed_path input_values) d = Inr path"
      using part up
      by (cases "make_next_hashed_path vis (map hashed_path input_values) d")
        (simp_all add: visit_partitionable_operation_def)
    have fines: "partitionable_fine_grained_views lib vis d up path con =
        Inr (replicate (num_outputs d) None, con)"
      using upq(1)
      by (auto simp: partitionable_fine_grained_views_def truthy_def split: option.splits)
    have seq: "sequence (map (\<lambda>(flat, fine). new_OptimizationView False flat fine path)
        (zip (outputs d ins) (replicate (num_outputs d) None))) = Inr views" and c: "con' = con"
      using part upq
      by (simp_all add: visit_partitionable_operation_def up path fines insq Let_def
          outputs_def split: if_splits sum.splits)
    have zip_eq: "zip (outputs d ins) (replicate (num_outputs d) None) =
        map (\<lambda>flat. (flat, None)) (outputs d ins)"
      by (simp add: outputs_def zip_replicate2 map_replicate_const [symmetric]
          zip_map_map [symmetric] del: map_replicate_const)
    have "sequence (map (\<lambda>flat. new_OptimizationView False flat None path)
        (outputs d ins)) = Inr views"
      using seq unfolding zip_eq map_map comp_def prod.case .
    then have "views = map (\<lambda>flat. \<lparr>prefer_fine_grained_view = False, flattened_view = flat,
        fine_grained_view = None, hashed_path = path\<rparr>) (outputs d ins)"
      by (rule plain_views)
    with c show ?thesis
      by (auto simp: zip_map2 truthy_def set_zip)
  next
    case other
    from other_views [OF other(1)] flats other(2) show ?thesis
      by (auto simp: zip_map2 truthy_def set_zip)
  qed
qed

lemma traversal_without_dataset_keys:
  assumes "dataset_keys vis = []"
    and "visit_value_node lib vis root
           \<lparr>cached_value_nodes_values = [], cache_output_nodes = []\<rparr> = Inr (view, st)"
  shows "flattened_view view = root \<and> cache_output_nodes st = [] \<and>
         (\<forall>(n, v) \<in> set (cached_value_nodes_values st).
            flattened_view v = n \<and> \<not> truthy (fine_grained_view v) \<and>
            \<not> prefer_fine_grained_view v)"
proof -
  have step: "\<And>d ins input_values con views con'.
      list_all2 (\<lambda>n v. flattened_view v = n \<and> \<not> truthy (fine_grained_view v) \<and>
                \<not> prefer_fine_grained_view v) ins input_values \<Longrightarrow> con = [] \<Longrightarrow>
      visit lib vis d input_values con = Inr (views, con') \<Longrightarrow>
      (\<forall>(n, v) \<in> set (zip (outputs d ins) views).
         flattened_view v = n \<and> \<not> truthy (fine_grained_view v) \<and>
         \<not> prefer_fine_grained_view v) \<and> con' = []"
    using visit_without_dataset_keys [OF assms(1)] by blast
  from traversal_invariant(1)
      [where Q = "\<lambda>n v. flattened_view v = n \<and> \<not> truthy (fine_grained_view v) \<and>
                   \<not> prefer_fine_grained_view v" and R = "\<lambda>con. con = []",
       OF step assms(2)]
  show ?thesis by simp
qed

text \<open>
  C10. With an empty or absent set of dataset keys, with or without a cache dictionary,
  every view the traversal computes has the visited value node itself as flattened view,
  has no non-empty fine-grained view and prefers none, and no cache-output node is
  recorded; the view of an \<open>ApplySavedModel\<close> of phase 0 has an empty fine-grained view.
  So \<open>_perform_cache_optimization\<close>, when it returns, returns the graph it was given and
  a cache-output mapping that is \<open>None\<close> or empty.
\<close>

theorem no_dataset_keys_plain_graph:
  "(keys = None \<or> keys = Some []) \<longrightarrow>
     (\<forall>optimized con.
        perform_cache_optimization lib root keys paths cd = Inr (optimized, con) \<longrightarrow>
        optimized = root \<and> (con = None \<or> con = Some [])) \<and>
     (\<forall>view st.
        visit_value_node lib
          \<lparr>dataset_keys = [], cache_dict = cd, tensor_keys_to_paths = paths\<rparr> root
          \<lparr>cached_value_nodes_values = [], cache_output_nodes = []\<rparr> = Inr (view, st) \<longrightarrow>
        flattened_view view = root \<and> cache_output_nodes st = [] \<and>
        (\<forall>(n, v) \<in> set (cached_value_nodes_values st).
           flattened_view v = n \<and> \<not> truthy (fine_grained_view v) \<and>
           \<not> prefer_fine_grained_view v)) \<and>
     (\<forall>d up con views con'.
        is_apply_savedmodel_phase0 d \<and>
        visit lib \<lparr>dataset_keys = [], cache_dict = cd, tensor_keys_to_paths = paths\<rparr> d [up]
          con = Inr (views, con') \<longrightarrow>
        (\<forall>v \<in> set views. fine_grained_view v = Some []))"
proof (intro impI conjI allI)
  fix optimized con
  assume k: "keys = None \<or> keys = Some []"
    and run: "perform_cache_optimization lib root keys paths cd = Inr (optimized, con)"
  from k have sorted: "sort (case keys of None \<Rightarrow> [] | Some ks \<Rightarrow> ks) = []" by auto
  from run obtain view st where
    tr: "visit_value_node lib
          \<lparr>dataset_keys = [], cache_dict = cd, tensor_keys_to_paths = paths\<rparr> root
          \<lparr>cached_value_nodes_values = [], cache_output_nodes = []\<rparr> = Inr (view, st)"
    and res: "optimized = flattened_view view"
      "con = None \<or> con = Some (cache_output_nodes st)"
    unfolding perform_cache_optimization_def Let_def sorted
    by (auto split: sum.splits option.splits if_splits)
  from traversal_without_dataset_keys [OF _ tr] res
  show "optimized = root" and "con = None \<or> con = Some []" by auto
next
  fix view st
  assume "visit_value_node lib
          \<lparr>dataset_keys = [], cache_dict = cd, tensor_keys_to_paths = paths\<rparr> root
          \<lparr>cached_value_nodes_values = [], cache_output_nodes = []\<rparr> = Inr (view, st)"
  from traversal_without_dataset_keys [OF _ this]
  show "flattened_view view = root" and "cache_output_nodes st = []"
    and "\<forall>(n, v) \<in> set (cached_value_nodes_values st).
           flattened_view v = n \<and> \<not> truthy (fine_grained_view v) \<and>
           \<not> prefer_fine_grained_view v"
    by auto
next
  fix d up con views con'
  assume "is_apply_savedmodel_phase0 d \<and>
        visit lib \<lparr>dataset_keys = [], cache_dict = cd, tensor_keys_to_paths = paths\<rparr> d [up]
          con = Inr (views, con')"
  then show "\<forall>v \<in> set views. fine_grained_view v = Some []"
    by (auto simp: visit_def visit_apply_savedmodel_operation_def new_OptimizationView_def
        split: sum.splits if_splits)
qed

theorem no_dataset_keys_plain_graph_witness:
  "perform_cache_optimization example_library (ValueNode merge 0) None
     [''x'' \<mapsto> Some ''px''] (Some Map.empty) = Inr (ValueNode merge 0, Some []) \<and>
   perform_cache_optimization example_library (ValueNode merge 0) (Some [])
     [''x'' \<mapsto> Some ''px''] None = Inr (ValueNode merge 0, None) \<and>
   visit example_library
     \<lparr>dataset_keys = [], cache_dict = Some Map.empty,
      tensor_keys_to_paths = [''x'' \<mapsto> Some ''px'']\<rparr> apply_saved_model_op [flat_view] [] =
     Inr ([\<lparr>prefer_fine_grained_view = False, flattened_view = ValueNode apply_saved_model 0,
            fine_grained_view = Some [], hashed_path = Some ''APPLY_SAVEDMODEL''\<rparr>], [])"
  using no_dataset_keys_plain_graph
      [of None example_library "ValueNode merge 0" "[''x'' \<mapsto> Some ''px'']" "Some Map.empty",
       THEN mp, THEN conjunct1]
    no_dataset_keys_plain_graph
      [of "Some []" example_library "ValueNode merge 0" "[''x'' \<mapsto> Some ''px'']" None,
       THEN mp, THEN conjunct1]
  by (simp_all add: perform_cache_optimization_def example_defs visit_defs)

subsection \<open>Phase planner\<close>

lemma ready_value_node_result:
  "ready_value_node g r v = Inr b \<Longrightarrow> b = list_all (ready_to_run g r) (source_tensors v)"
  and ready_inputs_result:
  "ready_inputs g r vs = Inr bs \<Longrightarrow>
     list_all id bs = list_all (ready_to_run g r) (source_tensors_list vs)"
proof (induction g r v and g r vs arbitrary: b and bs rule: ready_value_node_ready_inputs.induct)
  case (1 g r d ins i)
  then obtain input_values where iv: "ready_inputs g r ins = Inr input_values"
    and i: "i < num_outputs d"
    and b: "b = ready_visit g r d input_values ! i"
    by (auto simp: ready_visit_def split: sum.splits if_splits)
  from "1.IH" [OF iv]
  have "list_all id input_values = list_all (ready_to_run g r) (source_tensors_list ins)" .
  with b i show ?case
    by (cases "kind d") (simp_all add: ready_visit_def)
next
  case (2 g r)
  then show ?case by simp
next
  case (3 g r v vs)
  then show ?case by (auto split: sum.splits)
qed

lemma ready_value_node_well_formed:
  "well_formed v \<Longrightarrow> \<exists>b. ready_value_node g r v = Inr b"
  and ready_inputs_well_formed:
  "well_formed_list vs \<Longrightarrow> \<exists>bs. ready_inputs g r vs = Inr bs"
proof (induction g r v and g r vs rule: ready_value_node_ready_inputs.induct)
  case (1 g r d ins i)
  then show ?case by (auto simp: ready_visit_def)
next
  case (2 g r)
  then show ?case by simp
next
  case (3 g r v vs)
  then show ?case by auto
qed

lemma initial_state_keys:
  "fst ` set (sink_tensors_ready (initial_state g)) = tensor ` set (tensor_replacements g)"
  and initial_state_distinct: "distinct (map fst (sink_tensors_ready (initial_state g)))"
  and initial_state_unresolved:
    "unresolved (sink_tensors_ready (initial_state g)) = tensor ` set (tensor_replacements g)"
proof -
  have eq: "fold (\<lambda>tensor_sink. AList.update (tensor tensor_sink) False) (tensor_replacements g) [] =
      fold (\<lambda>k. AList.update k False) (map tensor (tensor_replacements g)) []"
    by (simp add: fold_map comp_def)
  show "fst ` set (sink_tensors_ready (initial_state g)) = tensor ` set (tensor_replacements g)"
    unfolding initial_state_def by (simp add: eq keys_fold_update)
  show "distinct (map fst (sink_tensors_ready (initial_state g)))"
    unfolding initial_state_def by (simp add: eq distinct_fold_update)
  show "unresolved (sink_tensors_ready (initial_state g)) = tensor ` set (tensor_replacements g)"
    unfolding initial_state_def unresolved_def
    by (auto simp: eq map_of_fold_update)
qed

lemma unresolved_subset_keys: "unresolved r \<subseteq> fst ` set r"
  by (auto simp: unresolved_def dest: map_of_SomeD intro: rev_image_eqI)

lemma finite_unresolved: "finite (unresolved r)"
  by (rule finite_subset [OF unresolved_subset_keys]) simp

lemma unresolved_update: "unresolved (AList.update t True r) = unresolved r - {t}"
  by (auto simp: unresolved_def update_conv')

lemma unresolved_nonempty:
  "distinct (map fst r) \<Longrightarrow> \<not> list_all snd r \<Longrightarrow> unresolved r \<noteq> {}"
  by (force simp: unresolved_def list_all_iff)

lemma unresolved_not_all_ready: "t \<in> unresolved r \<Longrightarrow> \<not> list_all snd r"
proof -
  assume "t \<in> unresolved r"
  then have "(t, False) \<in> set r"
    by (auto simp: unresolved_def dest!: map_of_SomeD)
  then show ?thesis
    by (force simp: list_all_iff)
qed

text \<open>One pass over the tensor sinks.\<close>

lemma resolve_sinks_cases:
  assumes "resolve_sinks g r (s # rest) st = Inr st'"
  obtains (same) "resolve_sinks g r rest st = Inr st'"
  | (marked) "map_of (sink_tensors_ready st) (tensor s) = Some False"
      "ready_value_node g r (future s) = Inr True"
      "resolve_sinks g r rest
         (st\<lparr>tensor_bindings := tensor_bindings st @ [tensor s],
             sink_tensors_ready := AList.update (tensor s) True (sink_tensors_ready st)\<rparr>) =
       Inr st'"
  using assms by (auto split: option.splits bool.splits sum.splits)

lemma resolve_sinks_invariant:
  assumes "resolve_sinks g r sinks st = Inr st'"
  shows "phase st' = phase st \<and>
    fst ` set (sink_tensors_ready st') = fst ` set (sink_tensors_ready st) \<and>
    (distinct (map fst (sink_tensors_ready st)) \<longrightarrow>
       distinct (map fst (sink_tensors_ready st'))) \<and>
    unresolved (sink_tensors_ready st') \<subseteq> unresolved (sink_tensors_ready st) \<and>
    (\<forall>t. map_of (sink_tensors_ready st) t = Some True \<longrightarrow>
         map_of (sink_tensors_ready st') t = Some True)"
  using assms
proof (induction sinks arbitrary: st)
  case Nil
  then show ?case by simp
next
  case (Cons s rest)
  from Cons.prems show ?case
  proof (cases rule: resolve_sinks_cases)
    case same
    then show ?thesis by (rule Cons.IH)
  next
    case marked
    have keys: "fst ` set (AList.update (tensor s) True (sink_tensors_ready st)) =
        fst ` set (sink_tensors_ready st)"
      using marked(1) by (auto simp: dom_update dest: map_of_SomeD intro: rev_image_eqI)
    from Cons.IH [OF marked(3)] keys show ?thesis
      by (auto simp: distinct_update unresolved_update update_conv')
  qed
qed

text \<open>A sink that the analyzer of the iteration finds ready is resolved by the pass.\<close>

lemma resolve_sinks_marks_ready:
  assumes "resolve_sinks g r sinks st = Inr st'"
    and "s \<in> set sinks"
    and "tensor s \<in> fst ` set (sink_tensors_ready st)"
    and "list_all (ready_to_run g r) (source_tensors (future s))"
  shows "map_of (sink_tensors_ready st') (tensor s) = Some True"
  using assms
proof (induction sinks arbitrary: st)
  case Nil
  then show ?case by simp
next
  case (Cons s0 rest)
  let ?st = "st\<lparr>tensor_bindings := tensor_bindings st @ [tensor s0],
      sink_tensors_ready := AList.update (tensor s0) True (sink_tensors_ready st)\<rparr>"
  show ?case
  proof (cases "s = s0")
    case True
    obtain b where b: "map_of (sink_tensors_ready st) (tensor s) = Some b"
      using Cons.prems(3) by (cases "map_of (sink_tensors_ready st) (tensor s)")
        (auto simp: map_of_eq_None_iff)
    show ?thesis
    proof (cases b)
      case True
      with b \<open>s = s0\<close> Cons.prems(1)
      have "resolve_sinks g r rest st = Inr st'" by simp
      from resolve_sinks_invariant [OF this] b True show ?thesis by simp
    next
      case False
      from Cons.prems(1) b False \<open>s = s0\<close>
      obtain rb where rb: "ready_value_node g r (future s) = Inr rb"
        by (auto split: sum.splits)
      from ready_value_node_result [OF rb] Cons.prems(4) have "rb" by simp
      with Cons.prems(1) b False \<open>s = s0\<close> rb
      have "resolve_sinks g r rest ?st = Inr st'" by simp
      from resolve_sinks_invariant [OF this] \<open>s = s0\<close> show ?thesis
        by (simp add: update_conv')
    qed
  next
    case False
    with Cons.prems(2) have in_rest: "s \<in> set rest" by simp
    from Cons.prems(1) show ?thesis
    proof (cases rule: resolve_sinks_cases)
      case same
      from Cons.IH [OF same in_rest Cons.prems(3) Cons.prems(4)] show ?thesis .
    next
      case marked
      have "tensor s \<in> fst ` set (sink_tensors_ready ?st)"
        using Cons.prems(3) by (simp add: dom_update)
      from Cons.IH [OF marked(3) in_rest this Cons.prems(4)] show ?thesis .
    qed
  qed
qed

lemma finite_sink_dependencies: "finite (sink_dependencies g)"
proof -
  have "sink_dependencies g \<subseteq>
      (\<Union>s \<in> set (tensor_replacements g). set (sink_requires g s)) \<times>
      tensor ` set (tensor_replacements g)"
    by (auto simp: sink_dependencies_def)
  then show ?thesis
    by (rule finite_subset) simp
qed

lemma sink_ready:
  assumes "s \<in> set (tensor_replacements g)"
    and "\<And>u. (u, tensor s) \<in> sink_dependencies g \<Longrightarrow> u \<notin> unresolved r"
  shows "list_all (ready_to_run g r) (source_tensors (future s))"
  using assms
  by (fastforce simp: list_all_iff ready_to_run_def sink_dependencies_def sink_requires_def
      unresolved_def)

lemma sink_not_ready:
  assumes "u \<in> set (sink_requires g s)" and "u \<in> unresolved r"
  shows "\<not> list_all (ready_to_run g r) (source_tensors (future s))"
  using assms
  by (auto simp: list_all_iff ready_to_run_def sink_requires_def unresolved_def)

text \<open>Without a cycle, an iteration that is entered resolves a sink.\<close>

lemma iteration_progress:
  assumes acyclic: "acyclic (sink_dependencies g)"
    and keys: "fst ` set (sink_tensors_ready st) = tensor ` set (tensor_replacements g)"
    and dist: "distinct (map fst (sink_tensors_ready st))"
    and enter: "\<not> list_all snd (sink_tensors_ready st)"
    and pass: "resolve_sinks g (sink_tensors_ready st) (tensor_replacements g) st = Inr st'"
  shows "\<exists>t. t \<in> unresolved (sink_tensors_ready st) \<and>
           map_of (sink_tensors_ready st') t = Some True"
proof -
  let ?r = "sink_tensors_ready st"
  from unresolved_nonempty [OF dist enter] obtain t0 where t0: "t0 \<in> unresolved ?r"
    by auto
  have "wf (sink_dependencies g)"
    using finite_sink_dependencies acyclic by (rule finite_acyclic_wf)
  from wfE_min [OF this t0] obtain t where t: "t \<in> unresolved ?r"
    and minimal: "\<And>u. (u, t) \<in> sink_dependencies g \<Longrightarrow> u \<notin> unresolved ?r"
    by blast
  from t unresolved_subset_keys [of ?r] keys
  have "t \<in> tensor ` set (tensor_replacements g)" by auto
  then obtain s where s: "s \<in> set (tensor_replacements g)" "tensor s = t"
    by auto
  have "list_all (ready_to_run g ?r) (source_tensors (future s))"
    using s minimal by (intro sink_ready) auto
  from resolve_sinks_marks_ready [OF pass s(1) _ this] s t unresolved_subset_keys [of ?r]
  have "map_of (sink_tensors_ready st') t = Some True"
    by auto
  with t show ?thesis by blast
qed

lemma iteration_decreases:
  assumes "t \<in> unresolved (sink_tensors_ready st)"
    and "map_of (sink_tensors_ready st') t = Some True"
    and "unresolved (sink_tensors_ready st') \<subseteq> unresolved (sink_tensors_ready st)"
  shows "card (unresolved (sink_tensors_ready st')) < card (unresolved (sink_tensors_ready st))"
proof -
  from assms(2) have "t \<notin> unresolved (sink_tensors_ready st')"
    by (simp add: unresolved_def)
  with assms(1,3) have "unresolved (sink_tensors_ready st') \<subset> unresolved (sink_tensors_ready st)"
    by blast
  then show ?thesis
    by (rule psubset_card_mono [OF finite_unresolved])
qed

lemma loop_state_keys:
  assumes "loop_state g st"
  shows "fst ` set (sink_tensors_ready st) = tensor ` set (tensor_replacements g) \<and>
         distinct (map fst (sink_tensors_ready st))"
  using assms
proof induction
  case initial
  show ?case by (simp add: initial_state_keys initial_state_distinct)
next
  case (iteration st st')
  from resolve_sinks_invariant [OF iteration(3)] iteration.IH show ?case
    by simp
qed

lemma loop_state_phase:
  assumes "acyclic (sink_dependencies g)" and "loop_state g st"
  shows "phase st + card (unresolved (sink_tensors_ready st)) \<le> length (tensor_replacements g)"
  using assms(2)
proof induction
  case initial
  have "card (tensor ` set (tensor_replacements g)) \<le> length (tensor_replacements g)"
    by (rule order_trans [OF card_image_le card_length]) simp
  then show ?case
    by (simp add: initial_state_unresolved) (simp add: initial_state_def)
next
  case (iteration st st')
  from loop_state_keys [OF iteration(1)]
  have keys: "fst ` set (sink_tensors_ready st) = tensor ` set (tensor_replacements g)"
    and dist: "distinct (map fst (sink_tensors_ready st))" by simp_all
  from iteration_progress [OF assms(1) keys dist iteration(2,3)] obtain t
    where "t \<in> unresolved (sink_tensors_ready st)"
      "map_of (sink_tensors_ready st') t = Some True" by blast
  from iteration_decreases [OF this] resolve_sinks_invariant [OF iteration(3)] iteration.IH
  show ?case by simp
qed

lemma phase_loop_returns:
  assumes "acyclic (sink_dependencies g)" and "loop_state g st"
  shows "\<exists>res. phase_loop g (tensor_replacements g) st = Some res \<and>
           (\<forall>st'. res = Inr st' \<longrightarrow> loop_state g st' \<and> list_all snd (sink_tensors_ready st'))"
  using assms(2)
proof (induction "card (unresolved (sink_tensors_ready st))" arbitrary: st rule: less_induct)
  case less
  show ?case
  proof (cases "list_all snd (sink_tensors_ready st)")
    case True
    with less.prems show ?thesis
      by (subst phase_loop.simps) simp
  next
    case False
    show ?thesis
    proof (cases "resolve_sinks g (sink_tensors_ready st) (tensor_replacements g) st")
      case (Inl e)
      with False show ?thesis
        by (subst phase_loop.simps) simp
    next
      case (Inr st')
      let ?next = "st'\<lparr>phase := Suc (phase st')\<rparr>"
      from loop_state_keys [OF less.prems]
      have keys: "fst ` set (sink_tensors_ready st) = tensor ` set (tensor_replacements g)"
        and dist: "distinct (map fst (sink_tensors_ready st))" by simp_all
      from iteration_progress [OF assms(1) keys dist False Inr] obtain t
        where "t \<in> unresolved (sink_tensors_ready st)"
          "map_of (sink_tensors_ready st') t = Some True" by blast
      from iteration_decreases [OF this] resolve_sinks_invariant [OF Inr]
      have "card (unresolved (sink_tensors_ready ?next)) <
          card (unresolved (sink_tensors_ready st))" by simp
      moreover have "loop_state g ?next"
        using less.prems False Inr by (rule loop_state.iteration)
      ultimately have "\<exists>res. phase_loop g (tensor_replacements g) ?next = Some res \<and>
           (\<forall>st'. res = Inr st' \<longrightarrow> loop_state g st' \<and> list_all snd (sink_tensors_ready st'))"
        by (rule less.hyps)
      moreover have "phase_loop g (tensor_replacements g) st =
          phase_loop g (tensor_replacements g) ?next"
        using False Inr by (subst phase_loop.simps) simp
      ultimately show ?thesis by simp
    qed
  qed
qed

text \<open>
  A cycle of the dependency relation gives a set of sink tensors each of whose sinks
  requires a member of the set.
\<close>

lemma circular_dependency:
  assumes "\<not> acyclic (sink_dependencies g)"
    and "distinct (map tensor (tensor_replacements g))"
  shows "\<exists>C. circular g C"
proof -
  let ?R = "sink_dependencies g"
  from assms(1) obtain t where t: "(t, t) \<in> ?R\<^sup>+"
    by (auto simp: acyclic_def)
  define C where "C = {x. (x, t) \<in> ?R\<^sup>+ \<and> (t, x) \<in> ?R\<^sup>+}"
  have edge: "\<exists>z. (z, x) \<in> ?R \<and> z \<in> C" if "x \<in> C" for x
  proof -
    from that have xt: "(x, t) \<in> ?R\<^sup>+" and tx: "(t, x) \<in> ?R\<^sup>+"
      by (simp_all add: C_def)
    from tranclD2 [OF tx] obtain z where tz: "(t, z) \<in> ?R\<^sup>*" and zx: "(z, x) \<in> ?R"
      by blast
    from zx xt have "(z, t) \<in> ?R\<^sup>+" by (rule trancl_into_trancl2)
    moreover from tz t have "(t, z) \<in> ?R\<^sup>+"
      by (auto dest: rtranclD)
    ultimately show ?thesis using zx by (auto simp: C_def)
  qed
  have "C \<noteq> {}" using t by (auto simp: C_def)
  moreover have "C \<subseteq> tensor ` set (tensor_replacements g)"
  proof
    fix x assume "x \<in> C"
    from edge [OF this] obtain z where "(z, x) \<in> ?R" by blast
    then show "x \<in> tensor ` set (tensor_replacements g)"
      by (auto simp: sink_dependencies_def)
  qed
  moreover have "\<forall>s \<in> set (tensor_replacements g).
      tensor s \<in> C \<longrightarrow> (\<exists>u \<in> set (sink_requires g s). u \<in> C)"
  proof (intro ballI impI)
    fix s assume s: "s \<in> set (tensor_replacements g)" and "tensor s \<in> C"
    note that = this
    from edge [OF that(2)] obtain z where z: "(z, tensor s) \<in> ?R" "z \<in> C" by blast
    then obtain s' where s': "s' \<in> set (tensor_replacements g)" "tensor s' = tensor s"
      "z \<in> set (sink_requires g s')"
      by (auto simp: sink_dependencies_def)
    from assms(2) have "inj_on tensor (set (tensor_replacements g))"
      by (simp add: distinct_map)
    with s s' have "s' = s" by (auto dest: inj_onD)
    with s' z show "\<exists>u \<in> set (sink_requires g s). u \<in> C" by blast
  qed
  ultimately have "circular g C" by (simp add: circular_def)
  then show ?thesis ..
qed

lemma circular_not_acyclic:
  assumes "circular g C"
  shows "\<not> acyclic (sink_dependencies g)"
proof
  assume "acyclic (sink_dependencies g)"
  with finite_sink_dependencies have "wf (sink_dependencies g)"
    by (rule finite_acyclic_wf)
  moreover from assms obtain t where "t \<in> C" by (auto simp: circular_def)
  ultimately obtain x where x: "x \<in> C"
    and minimal: "\<And>u. (u, x) \<in> sink_dependencies g \<Longrightarrow> u \<notin> C"
    by (rule wfE_min) blast
  from x assms obtain s where s: "s \<in> set (tensor_replacements g)" "tensor s = x"
    by (auto simp: circular_def)
  with x assms obtain u where u: "u \<in> set (sink_requires g s)" "u \<in> C"
    by (auto simp: circular_def)
  with s have "(u, x) \<in> sink_dependencies g"
    by (auto simp: sink_dependencies_def)
  with minimal u show False by blast
qed

text \<open>Such a set stays unresolved through a pass.\<close>

lemma resolve_sinks_stuck:
  assumes "C \<subseteq> unresolved r"
    and "\<forall>s \<in> set sinks. tensor s \<in> C \<longrightarrow> (\<exists>u \<in> set (sink_requires g s). u \<in> C)"
    and "resolve_sinks g r sinks st = Inr st'"
    and "C \<subseteq> unresolved (sink_tensors_ready st)"
  shows "C \<subseteq> unresolved (sink_tensors_ready st')"
  using assms(2-)
proof (induction sinks arbitrary: st)
  case Nil
  then show ?case by simp
next
  case (Cons s rest)
  from Cons.prems(1)
  have rest: "\<forall>s \<in> set rest. tensor s \<in> C \<longrightarrow> (\<exists>u \<in> set (sink_requires g s). u \<in> C)"
    by simp
  from Cons.prems(2) show ?case
  proof (cases rule: resolve_sinks_cases)
    case same
    from Cons.IH [OF rest same Cons.prems(3)] show ?thesis .
  next
    case marked
    have "tensor s \<notin> C"
    proof
      assume "tensor s \<in> C"
      with Cons.prems(1) obtain u where "u \<in> set (sink_requires g s)" "u \<in> C"
        by auto
      with assms(1) have "\<not> list_all (ready_to_run g r) (source_tensors (future s))"
        by (intro sink_not_ready) auto
      with ready_value_node_result [OF marked(2)] show False by simp
    qed
    with Cons.prems(3)
    have "C \<subseteq> unresolved (sink_tensors_ready
        (st\<lparr>tensor_bindings := tensor_bindings st @ [tensor s],
            sink_tensors_ready := AList.update (tensor s) True (sink_tensors_ready st)\<rparr>))"
      by (auto simp: unresolved_update)
    from Cons.IH [OF rest marked(3) this] show ?thesis .
  qed
qed

text \<open>A pass over well-formed sinks whose tensors are keys of the dictionary does not raise.\<close>

lemma resolve_sinks_returns:
  assumes "\<forall>s \<in> set sinks. well_formed (future s)"
    and "tensor ` set sinks \<subseteq> fst ` set (sink_tensors_ready st)"
  shows "\<exists>st'. resolve_sinks g r sinks st = Inr st'"
  using assms
proof (induction sinks arbitrary: st)
  case Nil
  then show ?case by simp
next
  case (Cons s rest)
  let ?st = "st\<lparr>tensor_bindings := tensor_bindings st @ [tensor s],
      sink_tensors_ready := AList.update (tensor s) True (sink_tensors_ready st)\<rparr>"
  obtain b where b: "map_of (sink_tensors_ready st) (tensor s) = Some b"
    using Cons.prems(2)
    by (cases "map_of (sink_tensors_ready st) (tensor s)") (auto simp: map_of_eq_None_iff)
  from Cons.prems(1) have "well_formed (future s)" by simp
  from ready_value_node_well_formed(1) [OF this, of g r]
  obtain rb where rb: "ready_value_node g r (future s) = Inr rb" by blast
  from Cons.prems have "\<exists>st'. resolve_sinks g r rest st = Inr st'"
    by (intro Cons.IH) simp_all
  moreover from Cons.prems have "\<exists>st'. resolve_sinks g r rest ?st = Inr st'"
    by (intro Cons.IH) (auto simp: dom_update)
  ultimately show ?case
    using b rb by (cases b; cases rb) simp_all
qed

text \<open>With such a set the loop never leaves.\<close>

lemma phase_loop_stuck:
  assumes circular: "circular g C"
    and returns: "phase_loop g (tensor_replacements g) st = Some res"
    and stuck: "C \<subseteq> unresolved (sink_tensors_ready st)"
  shows "(\<exists>e. res = Inl e) \<and>
    \<not> ((\<forall>s \<in> set (tensor_replacements g). well_formed (future s)) \<and>
       tensor ` set (tensor_replacements g) \<subseteq> fst ` set (sink_tensors_ready st))"
proof -
  let ?P = "\<lambda>g' sinks st (res :: error + planner_state).
      g' = g \<longrightarrow> sinks = tensor_replacements g \<longrightarrow>
      C \<subseteq> unresolved (sink_tensors_ready st) \<longrightarrow>
      (\<exists>e. res = Inl e) \<and>
      \<not> ((\<forall>s \<in> set (tensor_replacements g). well_formed (future s)) \<and>
         tensor ` set (tensor_replacements g) \<subseteq> fst ` set (sink_tensors_ready st))"
  from circular have nonempty: "C \<noteq> {}"
    and requires: "\<forall>s \<in> set (tensor_replacements g).
        tensor s \<in> C \<longrightarrow> (\<exists>u \<in> set (sink_requires g s). u \<in> C)"
    by (simp_all add: circular_def)
  from returns have "?P g (tensor_replacements g) st res"
  proof (rule phase_loop.raw_induct [where P = ?P, rotated])
    fix loop g' sinks st res
    assume IH: "\<And>g' sinks st res. loop g' sinks st = Some res \<Longrightarrow> ?P g' sinks st res"
      and unfolded:
        "(if list_all snd (sink_tensors_ready st) then Some (Inr st)
          else case resolve_sinks g' (sink_tensors_ready st) sinks st of
                 Inl e \<Rightarrow> Some (Inl e)
               | Inr st' \<Rightarrow> loop g' sinks (st'\<lparr>phase := Suc (phase st')\<rparr>)) = Some res"
    show "?P g' sinks st res"
    proof (intro impI)
      assume g': "g' = g" and sinks: "sinks = tensor_replacements g"
        and stuck: "C \<subseteq> unresolved (sink_tensors_ready st)"
      from nonempty stuck obtain t where "t \<in> unresolved (sink_tensors_ready st)"
        by auto
      then have enter: "\<not> list_all snd (sink_tensors_ready st)"
        by (rule unresolved_not_all_ready)
      show "(\<exists>e. res = Inl e) \<and>
        \<not> ((\<forall>s \<in> set (tensor_replacements g). well_formed (future s)) \<and>
           tensor ` set (tensor_replacements g) \<subseteq> fst ` set (sink_tensors_ready st))"
      proof (cases "resolve_sinks g (sink_tensors_ready st) (tensor_replacements g) st")
        case (Inl e)
        with resolve_sinks_returns
          [of "tensor_replacements g" st g "sink_tensors_ready st"]
        have "\<not> ((\<forall>s \<in> set (tensor_replacements g). well_formed (future s)) \<and>
           tensor ` set (tensor_replacements g) \<subseteq> fst ` set (sink_tensors_ready st))"
          by auto
        moreover from unfolded enter Inl g' sinks have "res = Inl e" by simp
        ultimately show ?thesis by simp
      next
        case (Inr st')
        let ?next = "st'\<lparr>phase := Suc (phase st')\<rparr>"
        from unfolded enter Inr g' sinks
        have "loop g (tensor_replacements g) ?next = Some res"
          by simp
        moreover from resolve_sinks_stuck [OF stuck requires Inr stuck]
        have "C \<subseteq> unresolved (sink_tensors_ready ?next)" by simp
        ultimately have "(\<exists>e. res = Inl e) \<and>
          \<not> ((\<forall>s \<in> set (tensor_replacements g). well_formed (future s)) \<and>
             tensor ` set (tensor_replacements g) \<subseteq> fst ` set (sink_tensors_ready ?next))"
          using IH by blast
        with resolve_sinks_invariant [OF Inr] show ?thesis by simp
      qed
    qed
  qed
  with stuck show ?thesis by simp
qed

lemmas planner_defs =
  min_max_graph_def circular_graph_def analyzer_node_def source_node_def initial_state_def
  sink_requires_def ready_to_run_def ready_visit_def

lemma min_max_graph_acyclic: "acyclic (sink_dependencies min_max_graph)"
proof (rule acyclicI_order)
  fix a b
  assume "(a, b) \<in> sink_dependencies min_max_graph"
  then show "(if b = ''max/Placeholder:0'' then 0 else if b = ''min/Placeholder:0'' then 1 else 2)
      < (if a = ''max/Placeholder:0'' then 0 else if a = ''min/Placeholder:0'' then 1
         else (2 :: nat))"
    by (auto simp: sink_dependencies_def planner_defs split: if_splits)
qed

lemma min_max_graph_phases:
  "build_phases min_max_graph =
     Some (Inr \<lparr>phase = 2,
                tensor_bindings = [''min/Placeholder:0'', ''max/Placeholder:0''],
                sink_tensors_ready =
                  [(''max/Placeholder:0'', True), (''min/Placeholder:0'', True)]\<rparr>)"
  unfolding build_phases_def
  apply (subst phase_loop.simps)
  apply (simp add: planner_defs)
  apply (subst phase_loop.simps)
  apply (simp add: planner_defs)
  apply (subst phase_loop.simps)
  apply (simp add: planner_defs)
  done

text \<open>
  C2. When the dependency relation of the input graph is acyclic, the phase loop of
  \<open>build\<close> returns (with every sink resolved, unless an iteration raised); every
  state of the loop, and so the final one, has a phase counter of at most the number of
  tensor sinks; and every iteration that is entered and completes marks as resolved a
  sink tensor that was unresolved before it. When the input graph has a circular
  dependency, the loop never returns a final state, and with well-formed value nodes it
  raises nothing either: it does not terminate.
\<close>

theorem phase_loop_termination:
  "(acyclic (sink_dependencies g) \<longrightarrow>
      (\<exists>res. build_phases g = Some res \<and>
         (\<forall>st. res = Inr st \<longrightarrow>
            list_all snd (sink_tensors_ready st) \<and>
            phase st \<le> length (tensor_replacements g))) \<and>
      (\<forall>st. loop_state g st \<longrightarrow> phase st \<le> length (tensor_replacements g)) \<and>
      (\<forall>st st'.
         loop_state g st \<and> \<not> list_all snd (sink_tensors_ready st) \<and>
         resolve_sinks g (sink_tensors_ready st) (tensor_replacements g) st = Inr st' \<longrightarrow>
         (\<exists>t. t \<in> unresolved (sink_tensors_ready st) \<and>
              map_of (sink_tensors_ready st') t = Some True))) \<and>
   (circular g C \<longrightarrow>
      (\<forall>st. build_phases g \<noteq> Some (Inr st)) \<and>
      (list_all (\<lambda>s. well_formed (future s)) (tensor_replacements g) \<longrightarrow>
         build_phases g = None))"
proof (intro conjI impI allI)
  assume acyclic: "acyclic (sink_dependencies g)"
  from phase_loop_returns [OF acyclic loop_state.initial]
  obtain res where res: "build_phases g = Some res"
    and final: "\<And>st. res = Inr st \<Longrightarrow> loop_state g st \<and> list_all snd (sink_tensors_ready st)"
    unfolding build_phases_def by blast
  have "list_all snd (sink_tensors_ready st) \<and> phase st \<le> length (tensor_replacements g)"
    if "res = Inr st" for st
    using final [OF that] loop_state_phase [OF acyclic, of st] by simp
  with res show "\<exists>res. build_phases g = Some res \<and>
      (\<forall>st. res = Inr st \<longrightarrow>
         list_all snd (sink_tensors_ready st) \<and> phase st \<le> length (tensor_replacements g))"
    by blast
next
  fix st
  assume "acyclic (sink_dependencies g)" and "loop_state g st"
  from loop_state_phase [OF this] show "phase st \<le> length (tensor_replacements g)"
    by simp
next
  fix st st'
  assume acyclic: "acyclic (sink_dependencies g)"
    and iteration: "loop_state g st \<and> \<not> list_all snd (sink_tensors_ready st) \<and>
      resolve_sinks g (sink_tensors_ready st) (tensor_replacements g) st = Inr st'"
  from loop_state_keys [of g st] iteration
  have keys: "fst ` set (sink_tensors_ready st) = tensor ` set (tensor_replacements g)"
    and dist: "distinct (map fst (sink_tensors_ready st))" by simp_all
  from iteration iteration_progress [OF acyclic keys dist]
  show "\<exists>t. t \<in> unresolved (sink_tensors_ready st) \<and>
      map_of (sink_tensors_ready st') t = Some True"
    by blast
next
  fix st
  assume circular: "circular g C"
  then have stuck: "C \<subseteq> unresolved (sink_tensors_ready (initial_state g))"
    by (simp add: initial_state_unresolved circular_def)
  show "build_phases g \<noteq> Some (Inr st)"
  proof
    assume "build_phases g = Some (Inr st)"
    then have "phase_loop g (tensor_replacements g) (initial_state g) = Some (Inr st)"
      by (simp add: build_phases_def)
    from phase_loop_stuck [OF circular this stuck] show False by simp
  qed
next
  assume circular: "circular g C"
    and well_formed: "list_all (\<lambda>s. well_formed (future s)) (tensor_replacements g)"
  from circular have stuck: "C \<subseteq> unresolved (sink_tensors_ready (initial_state g))"
    by (simp add: initial_state_unresolved circular_def)
  show "build_phases g = None"
  proof (rule ccontr)
    assume "build_phases g \<noteq> None"
    then obtain res where "phase_loop g (tensor_replacements g) (initial_state g) = Some res"
      by (auto simp: build_phases_def)
    from phase_loop_stuck [OF circular this stuck] well_formed show False
      by (simp add: list_all_iff initial_state_keys)
  qed
qed

theorem phase_loop_termination_witness:
  "acyclic (sink_dependencies min_max_graph) \<and>
   (\<exists>st. build_phases min_max_graph = Some (Inr st) \<and> phase st = 2 \<and>
      phase st \<le> length (tensor_replacements min_max_graph) \<and>
      list_all snd (sink_tensors_ready st)) \<and>
   loop_state min_max_graph (initial_state min_max_graph) \<and>
   (\<exists>st'. resolve_sinks min_max_graph (sink_tensors_ready (initial_state min_max_graph))
            (tensor_replacements min_max_graph) (initial_state min_max_graph) = Inr st' \<and>
      (\<exists>t. t \<in> unresolved (sink_tensors_ready (initial_state min_max_graph)) \<and>
           map_of (sink_tensors_ready st') t = Some True)) \<and>
   circular circular_graph {''p:0'', ''q:0''} \<and>
   list_all (\<lambda>s. well_formed (future s)) (tensor_replacements circular_graph) \<and>
   build_phases circular_graph = None"
  using phase_loop_termination [of min_max_graph "{}"]
    phase_loop_termination [of circular_graph "{''p:0'', ''q:0''}"]
    min_max_graph_acyclic min_max_graph_phases loop_state.initial [of min_max_graph]
  by (simp add: planner_defs circular_def unresolved_def)

end
